theory Spec2Isabelle
  imports Complex_Main
begin

section \<open>The tensor graph of core/darv\_tensor.hpp\<close>

text \<open>
  The autograd engine keeps its tensors behind \<^verbatim>\<open>std::shared_ptr\<close> and mutates them in
  place, so the model is an explicit store: a heap is the list of all tensors allocated so
  far, a pointer is an index into it, and \<^verbatim>\<open>std::make_shared\<close> appends. Every operation takes
  the heap and returns the new one.

  Conventions of the embedding:
  \<^item> \<^verbatim>\<open>double\<close> is idealised as \<open>real\<close>: rounding and the IEEE values inf and NaN are
    outside the model. The one division whose divisor the code can make zero from a
    well-formed tensor (\<^verbatim>\<open>1.0 / size_\<close> in \<^verbatim>\<open>mean\<close>) is written with \<open>double_div\<close>, which
    has no real result there.
  \<^item> \<^verbatim>\<open>size_t\<close> is 64 bits wide. Sizes are \<open>nat\<close>, and the one computation that can
    wrap from ordinary arguments (\<^verbatim>\<open>compute_size\<close>) has its reduction modulo \<open>2 ^ 64\<close>
    written out.
  \<^item> an index beyond a \<^verbatim>\<open>std::vector\<close> is undefined behaviour in C++; the model reads
    with \<open>!\<close> and writes with \<open>list_update\<close>, and the theorems carry the length
    hypotheses that keep every index in range.
  \<^item> the members \<^verbatim>\<open>data_\<close>, \<^verbatim>\<open>grad_\<close>, ... lose their trailing underscore (\<^verbatim>\<open>size_\<close> is
    \<open>tsize\<close>); \<^verbatim>\<open>name_\<close> is a debug label and is left out. The methods \<^verbatim>\<open>sum\<close> and
    \<^verbatim>\<open>tanh_\<close> are \<open>sum_op\<close> and \<open>tanh_op\<close>.
  \<^item> every \<^verbatim>\<open>throw std::runtime_error(msg)\<close> is the value \<open>runtime_error msg\<close>; the
    error kinds of the specification are read off the message by \<open>kind_of\<close>.
\<close>

type_synonym addr = nat

type_synonym Shape = "nat list"

datatype error = runtime_error string

datatype error_kind = SizeMismatch | ShapeMismatch | RankError

definition kind_of :: "error \<Rightarrow> error_kind option" where
  "kind_of e = (case e of runtime_error msg \<Rightarrow>
     if msg = ''Data size doesn't match shape'' then Some SizeMismatch
     else if msg = ''New shape size doesn't match tensor size'' then Some SizeMismatch
     else if msg = ''Shape mismatch in addition'' then Some ShapeMismatch
     else if msg = ''Shape mismatch in multiplication'' then Some ShapeMismatch
     else if msg = ''matmul requires 2D tensors'' then Some RankError
     else if msg = ''Incompatible dimensions for matmul'' then Some RankError
     else None)"

text \<open>
  A \<^verbatim>\<open>backward_fn_\<close> closure is the tag of the operation with what the lambda captures:
  \<^verbatim>\<open>this\<close>, \<^verbatim>\<open>other\<close>, the scalar or exponent, \<^verbatim>\<open>result\<close>, and for matmul \<open>m\<close>, \<open>k\<close>, \<open>n\<close>.
\<close>

datatype backward_fn =
    NoOp
  | AddBack addr addr addr
  | MultiplyBack addr addr addr
  | MultiplyScalarBack addr real addr
  | PowBack addr real addr
  | MatmulBack addr addr addr nat nat nat
  | SumBack addr addr
  | ReluBack addr addr
  | SigmoidBack addr addr
  | TanhBack addr addr
  | ReshapeBack addr addr

record Tensor =
  data :: "real list"
  grad :: "real list"
  shape :: Shape
  tsize :: nat
  requires_grad :: bool
  inputs :: "addr list"
  backward_fn :: backward_fn

type_synonym heap = "Tensor list"

definition make_shared :: "heap \<Rightarrow> Tensor \<Rightarrow> addr \<times> heap" where
  "make_shared h t = (length h, h @ [t])"

text \<open>\<^verbatim>\<open>for (size_t i = 0; i < n; i++) body\<close>, on a state the body updates.\<close>

definition for_loop :: "nat \<Rightarrow> (nat \<Rightarrow> 's \<Rightarrow> 's) \<Rightarrow> 's \<Rightarrow> 's" where
  "for_loop n body s = fold body [0..<n] s"

text \<open>\<^verbatim>\<open>std::vector::resize(n, val)\<close>.\<close>

definition resize :: "'a list \<Rightarrow> nat \<Rightarrow> 'a \<Rightarrow> 'a list" where
  "resize xs n val = take n xs @ replicate (n - length xs) val"

text \<open>
  \<^verbatim>\<open>compute_size\<close>: 0 for the empty shape, else \<^verbatim>\<open>std::accumulate\<close> with
  \<^verbatim>\<open>std::multiplies<size_t>\<close> from \<^verbatim>\<open>1ULL\<close>, each product reduced modulo \<open>2 ^ 64\<close>.
\<close>

definition compute_size :: "Shape \<Rightarrow> nat" where
  "compute_size s = (if s = [] then 0 else foldl (\<lambda>acc d. (acc * d) mod 2 ^ 64) 1 s)"

definition shapes_compatible :: "Shape \<Rightarrow> Shape \<Rightarrow> bool" where
  "shapes_compatible s1 s2 =
     (if length s1 \<noteq> length s2 then False
      else list_all (\<lambda>i. s1 ! i = s2 ! i) [0..<length s1])"

subsection \<open>Constructors and factories\<close>

definition Tensor_of_shape :: "Shape \<Rightarrow> bool \<Rightarrow> Tensor" where
  "Tensor_of_shape s rg =
     \<lparr>data = resize [] (compute_size s) 0,
      grad = (if rg then resize [] (compute_size s) 0 else []),
      shape = s, tsize = compute_size s, requires_grad = rg,
      inputs = [], backward_fn = NoOp\<rparr>"

definition Tensor_of_data :: "real list \<Rightarrow> Shape \<Rightarrow> bool \<Rightarrow> error + Tensor" where
  "Tensor_of_data d s rg =
     (if length d \<noteq> compute_size s then Inl (runtime_error ''Data size doesn't match shape'')
      else Inr \<lparr>data = d,
                grad = (if rg then resize [] (compute_size s) 0 else []),
                shape = s, tsize = compute_size s, requires_grad = rg,
                inputs = [], backward_fn = NoOp\<rparr>)"

text \<open>
  \<^verbatim>\<open>randn\<close> draws two numbers from \<^verbatim>\<open>rand()\<close> per element; the model takes the draws
  \<open>(u1, u2)\<close> of element \<open>i\<close> as the function \<open>draws\<close>.
\<close>

definition randn :: "heap \<Rightarrow> Shape \<Rightarrow> bool \<Rightarrow> (nat \<Rightarrow> real \<times> real) \<Rightarrow> addr \<times> heap" where
  "randn h s rg draws =
     (let tensor = Tensor_of_shape s rg;
          d = for_loop (length (data tensor))
                (\<lambda>i d. d[i := (case draws i of (u1, u2) \<Rightarrow> sqrt (- 2 * ln u1) * cos (2 * pi * u2))])
                (data tensor)
      in make_shared h (tensor\<lparr>data := d\<rparr>))"

definition zeros :: "heap \<Rightarrow> Shape \<Rightarrow> bool \<Rightarrow> addr \<times> heap" where
  "zeros h s rg = make_shared h (Tensor_of_shape s rg)"

definition ones :: "heap \<Rightarrow> Shape \<Rightarrow> bool \<Rightarrow> addr \<times> heap" where
  "ones h s rg =
     (let tensor = Tensor_of_shape s rg
      in make_shared h (tensor\<lparr>data := map (\<lambda>_. 1) (data tensor)\<rparr>))"

text \<open>
  The public constructor used through \<^verbatim>\<open>std::make_shared<Tensor>(data, shape, rg)\<close>: the
  exception leaves the heap as it was.
\<close>

definition from_data :: "heap \<Rightarrow> real list \<Rightarrow> Shape \<Rightarrow> bool \<Rightarrow> (error + addr) \<times> heap" where
  "from_data h d s rg =
     (case Tensor_of_data d s rg of
        Inl e \<Rightarrow> (Inl e, h)
      | Inr t \<Rightarrow> (case make_shared h t of (r, h') \<Rightarrow> (Inr r, h')))"

subsection \<open>Primitive operations (forward)\<close>

text \<open>
  Each operation builds \<open>result\<close> with the shape-only constructor, fills its data in a
  loop, sets \<open>inputs\<close> and \<open>backward_fn\<close>, and the result is the next cell of the heap.
\<close>

definition add :: "heap \<Rightarrow> addr \<Rightarrow> addr \<Rightarrow> (error + addr) \<times> heap" where
  "add h this other =
     (if \<not> shapes_compatible (shape (h ! this)) (shape (h ! other))
      then (Inl (runtime_error ''Shape mismatch in addition''), h)
      else
        let r = length h;
            result = Tensor_of_shape (shape (h ! this))
                       (requires_grad (h ! this) \<or> requires_grad (h ! other));
            d = for_loop (tsize (h ! this))
                  (\<lambda>i d. d[i := data (h ! this) ! i + data (h ! other) ! i]) (data result)
        in (Inr r, h @ [result\<lparr>data := d, inputs := [this, other],
                               backward_fn := AddBack this other r\<rparr>]))"

definition multiply :: "heap \<Rightarrow> addr \<Rightarrow> addr \<Rightarrow> (error + addr) \<times> heap" where
  "multiply h this other =
     (if \<not> shapes_compatible (shape (h ! this)) (shape (h ! other))
      then (Inl (runtime_error ''Shape mismatch in multiplication''), h)
      else
        let r = length h;
            result = Tensor_of_shape (shape (h ! this))
                       (requires_grad (h ! this) \<or> requires_grad (h ! other));
            d = for_loop (tsize (h ! this))
                  (\<lambda>i d. d[i := data (h ! this) ! i * data (h ! other) ! i]) (data result)
        in (Inr r, h @ [result\<lparr>data := d, inputs := [this, other],
                               backward_fn := MultiplyBack this other r\<rparr>]))"

definition multiply_scalar :: "heap \<Rightarrow> addr \<Rightarrow> real \<Rightarrow> addr \<times> heap" where
  "multiply_scalar h this scalar =
     (let r = length h;
          result = Tensor_of_shape (shape (h ! this)) (requires_grad (h ! this));
          d = for_loop (tsize (h ! this))
                (\<lambda>i d. d[i := data (h ! this) ! i * scalar]) (data result)
      in (r, h @ [result\<lparr>data := d, inputs := [this],
                         backward_fn := MultiplyScalarBack this scalar r\<rparr>]))"

text \<open>
  \<^verbatim>\<open>std::pow\<close> on reals: the integer power where the exponent is an integer, the real
  power otherwise.
\<close>

definition std_pow :: "real \<Rightarrow> real \<Rightarrow> real" where
  "std_pow x y = (if y = of_int \<lfloor>y\<rfloor> then x powi \<lfloor>y\<rfloor> else x powr y)"

definition pow :: "heap \<Rightarrow> addr \<Rightarrow> real \<Rightarrow> addr \<times> heap" where
  "pow h this exponent =
     (let r = length h;
          result = Tensor_of_shape (shape (h ! this)) (requires_grad (h ! this));
          d = for_loop (tsize (h ! this))
                (\<lambda>i d. d[i := std_pow (data (h ! this) ! i) exponent]) (data result)
      in (r, h @ [result\<lparr>data := d, inputs := [this],
                         backward_fn := PowBack this exponent r\<rparr>]))"

definition matmul :: "heap \<Rightarrow> addr \<Rightarrow> addr \<Rightarrow> (error + addr) \<times> heap" where
  "matmul h this other =
     (if length (shape (h ! this)) \<noteq> 2 \<or> length (shape (h ! other)) \<noteq> 2
      then (Inl (runtime_error ''matmul requires 2D tensors''), h)
      else
        let m = shape (h ! this) ! 0;
            k = shape (h ! this) ! 1;
            n = shape (h ! other) ! 1
        in if k \<noteq> shape (h ! other) ! 0
           then (Inl (runtime_error ''Incompatible dimensions for matmul''), h)
           else
             let r = length h;
                 result = Tensor_of_shape [m, n]
                            (requires_grad (h ! this) \<or> requires_grad (h ! other));
                 d = for_loop m (\<lambda>i. for_loop n (\<lambda>j d.
                       d[i * n + j :=
                           for_loop k (\<lambda>l sum. sum + data (h ! this) ! (i * k + l)
                                                    * data (h ! other) ! (l * n + j)) 0]))
                       (data result)
             in (Inr r, h @ [result\<lparr>data := d, inputs := [this, other],
                                    backward_fn := MatmulBack this other r m k n\<rparr>]))"

definition sum_op :: "heap \<Rightarrow> addr \<Rightarrow> addr \<times> heap" where
  "sum_op h this =
     (let r = length h;
          result = Tensor_of_shape [1] (requires_grad (h ! this));
          sum_val = fold (\<lambda>val sum_val. sum_val + val) (data (h ! this)) 0
      in (r, h @ [result\<lparr>data := (data result)[0 := sum_val], inputs := [this],
                         backward_fn := SumBack this r\<rparr>]))"

text \<open>
  IEEE division: a real quotient unless the divisor is zero, where the C++ result is inf or
  NaN and \<open>real\<close> has no value for it.
\<close>

definition double_div :: "real \<Rightarrow> real \<Rightarrow> real option" where
  "double_div x y = (if y = 0 then None else Some (x / y))"

text \<open>
  \<^verbatim>\<open>mean\<close> is \<^verbatim>\<open>sum()->multiply_scalar(1.0 / size_)\<close> with no check of \<^verbatim>\<open>size_\<close>. The
  result is \<open>None\<close> exactly when that scalar is not a real number.
\<close>

definition mean :: "heap \<Rightarrow> addr \<Rightarrow> (addr \<times> heap) option" where
  "mean h this =
     (case sum_op h this of (sum_tensor, h1) \<Rightarrow>
        (case double_div 1 (real (tsize (h1 ! this))) of
           None \<Rightarrow> None
         | Some scalar \<Rightarrow> Some (multiply_scalar h1 sum_tensor scalar)))"

definition relu :: "heap \<Rightarrow> addr \<Rightarrow> addr \<times> heap" where
  "relu h this =
     (let r = length h;
          result = Tensor_of_shape (shape (h ! this)) (requires_grad (h ! this));
          d = for_loop (tsize (h ! this))
                (\<lambda>i d. d[i := max 0 (data (h ! this) ! i)]) (data result)
      in (r, h @ [result\<lparr>data := d, inputs := [this], backward_fn := ReluBack this r\<rparr>]))"

definition sigmoid :: "heap \<Rightarrow> addr \<Rightarrow> addr \<times> heap" where
  "sigmoid h this =
     (let r = length h;
          result = Tensor_of_shape (shape (h ! this)) (requires_grad (h ! this));
          d = for_loop (tsize (h ! this))
                (\<lambda>i d. d[i := 1 / (1 + exp (- (data (h ! this) ! i)))]) (data result)
      in (r, h @ [result\<lparr>data := d, inputs := [this], backward_fn := SigmoidBack this r\<rparr>]))"

definition tanh_op :: "heap \<Rightarrow> addr \<Rightarrow> addr \<times> heap" where
  "tanh_op h this =
     (let r = length h;
          result = Tensor_of_shape (shape (h ! this)) (requires_grad (h ! this));
          d = for_loop (tsize (h ! this))
                (\<lambda>i d. d[i := tanh (data (h ! this) ! i)]) (data result)
      in (r, h @ [result\<lparr>data := d, inputs := [this], backward_fn := TanhBack this r\<rparr>]))"

definition reshape :: "heap \<Rightarrow> addr \<Rightarrow> Shape \<Rightarrow> (error + addr) \<times> heap" where
  "reshape h this new_shape =
     (if compute_size new_shape \<noteq> tsize (h ! this)
      then (Inl (runtime_error ''New shape size doesn't match tensor size''), h)
      else
        (case Tensor_of_data (data (h ! this)) new_shape (requires_grad (h ! this)) of
           Inl e \<Rightarrow> (Inl e, h)
         | Inr result \<Rightarrow>
             let r = length h
             in (Inr r, h @ [result\<lparr>inputs := [this], backward_fn := ReshapeBack this r\<rparr>])))"

definition flatten :: "heap \<Rightarrow> addr \<Rightarrow> (error + addr) \<times> heap" where
  "flatten h this = reshape h this [tsize (h ! this)]"

subsection \<open>Backward rules\<close>

text \<open>\<^verbatim>\<open>a->grad_[i] += v\<close>.\<close>

definition grad_add :: "addr \<Rightarrow> nat \<Rightarrow> real \<Rightarrow> heap \<Rightarrow> heap" where
  "grad_add a i v h = h[a := (h ! a)\<lparr>grad := (grad (h ! a))[i := grad (h ! a) ! i + v]\<rparr>]"

text \<open>
  \<^verbatim>\<open>if (a->requires_grad_) for (i < a->size_) a->grad_[i] += c(i)\<close>, where the
  contribution \<open>c\<close> is read from the heap as it is in that iteration.
\<close>

definition accumulate :: "addr \<Rightarrow> (heap \<Rightarrow> nat \<Rightarrow> real) \<Rightarrow> heap \<Rightarrow> heap" where
  "accumulate a c h =
     (if requires_grad (h ! a)
      then for_loop (tsize (h ! a)) (\<lambda>i h'. grad_add a i (c h' i) h') h
      else h)"

fun run_backward_fn :: "backward_fn \<Rightarrow> heap \<Rightarrow> heap" where
  "run_backward_fn NoOp h = h"
| "run_backward_fn (AddBack this other result) h =
     accumulate other (\<lambda>h i. grad (h ! result) ! i)
       (accumulate this (\<lambda>h i. grad (h ! result) ! i) h)"
| "run_backward_fn (MultiplyBack this other result) h =
     accumulate other (\<lambda>h i. data (h ! this) ! i * grad (h ! result) ! i)
       (accumulate this (\<lambda>h i. data (h ! other) ! i * grad (h ! result) ! i) h)"
| "run_backward_fn (MultiplyScalarBack this scalar result) h =
     accumulate this (\<lambda>h i. scalar * grad (h ! result) ! i) h"
| "run_backward_fn (PowBack this exponent result) h =
     accumulate this
       (\<lambda>h i. exponent * std_pow (data (h ! this) ! i) (exponent - 1) * grad (h ! result) ! i) h"
| "run_backward_fn (MatmulBack this other result m k n) h =
     (let h1 = (if requires_grad (h ! this)
                then for_loop m (\<lambda>i. for_loop k (\<lambda>j h'.
                       grad_add this (i * k + j)
                         (for_loop n (\<lambda>l grad_sum. grad_sum + grad (h' ! result) ! (i * n + l)
                                                       * data (h' ! other) ! (j * n + l)) 0) h')) h
                else h)
      in if requires_grad (h1 ! other)
         then for_loop k (\<lambda>i. for_loop n (\<lambda>j h'.
                grad_add other (i * n + j)
                  (for_loop m (\<lambda>l grad_sum. grad_sum + data (h' ! this) ! (l * k + i)
                                                * grad (h' ! result) ! (l * n + j)) 0) h')) h1
         else h1)"
| "run_backward_fn (SumBack this result) h =
     accumulate this (\<lambda>h i. grad (h ! result) ! 0) h"
| "run_backward_fn (ReluBack this result) h =
     accumulate this (\<lambda>h i. if data (h ! this) ! i > 0 then grad (h ! result) ! i else 0) h"
| "run_backward_fn (SigmoidBack this result) h =
     accumulate this
       (\<lambda>h i. data (h ! result) ! i * (1 - data (h ! result) ! i) * grad (h ! result) ! i) h"
| "run_backward_fn (TanhBack this result) h =
     accumulate this
       (\<lambda>h i. (1 - data (h ! result) ! i * data (h ! result) ! i) * grad (h ! result) ! i) h"
| "run_backward_fn (ReshapeBack this result) h =
     accumulate this (\<lambda>h i. grad (h ! result) ! i) h"

subsection \<open>The backward engine\<close>

text \<open>
  A \<^verbatim>\<open>shared_ptr\<close> always points at an allocated tensor; an address outside the heap has
  no inputs in the model.
\<close>

definition inputs_of :: "heap \<Rightarrow> addr \<Rightarrow> addr list" where
  "inputs_of h t = (if t < length h then inputs (h ! t) else [])"

text \<open>
  The recursive lambda \<^verbatim>\<open>build_topo\<close> of \<^verbatim>\<open>backward\<close>, with the captured
  \<^verbatim>\<open>visited\<close> and \<^verbatim>\<open>topo\<close> as the state; \<open>build_topo_inputs\<close> is its loop over
  \<^verbatim>\<open>t->inputs_\<close>. It terminates on every heap, because each call that recurses marks an
  unvisited tensor.
\<close>

function build_topo :: "heap \<Rightarrow> addr \<Rightarrow> addr set \<times> addr list \<Rightarrow> addr set \<times> addr list"
  and build_topo_inputs :: "heap \<Rightarrow> addr list \<Rightarrow> addr set \<times> addr list \<Rightarrow> addr set \<times> addr list"
where
  "build_topo h t (visited, topo) =
     (if t \<notin> visited then
        (case build_topo_inputs h (inputs_of h t) (insert t visited, topo) of
           (visited', topo') \<Rightarrow> (visited', topo' @ [t]))
      else (visited, topo))"
| "build_topo_inputs h [] st = st"
| "build_topo_inputs h (input # rest) st = build_topo_inputs h rest (build_topo h input st)"
  by pat_completeness auto
termination
proof -
  let ?dom = build_topo_build_topo_inputs_dom
  define unvisited :: "heap \<Rightarrow> addr set \<Rightarrow> nat"
    where "unvisited h v = card ({..<length h} - v)" for h v
  have mono: "v \<subseteq> v' \<Longrightarrow> unvisited h v' \<le> unvisited h v" for h v v'
    unfolding unvisited_def by (intro card_mono) auto
  have ins: "t < length h \<Longrightarrow> t \<notin> v \<Longrightarrow> unvisited h (insert t v) < unvisited h v" for h t v
    unfolding unvisited_def by (intro psubset_card_mono) auto
  have out: "\<not> t < length h \<Longrightarrow> unvisited h (insert t v) = unvisited h v" for h t v
    unfolding unvisited_def by (rule arg_cong[where f = card]) auto
  have grows:
    "?dom (Inl (h, t, st)) \<Longrightarrow> fst st \<subseteq> fst (build_topo h t st)"
    "?dom (Inr (h, ins, st)) \<Longrightarrow> fst st \<subseteq> fst (build_topo_inputs h ins st)"
    for h t ins st
  proof (induction h t st and h ins st rule: build_topo_build_topo_inputs.pinduct)
    case (1 h t visited topo)
    then show ?case
      by (auto simp: build_topo.psimps split: prod.splits)
  next
    case (2 h st)
    then show ?case by (simp add: build_topo_inputs.psimps)
  next
    case (3 h input rest st)
    then show ?case
      by (auto simp: build_topo_inputs.psimps)
  qed
  show ?thesis
  proof (relation "inv_image (less_than <*lex*> less_than)
      (\<lambda>x. case x of
         Inl (h, t, st) \<Rightarrow> (unvisited h (fst st), 1::nat)
       | Inr (h, ins, st) \<Rightarrow> (unvisited h (fst st), 2 * length ins))", goal_cases)
    case 1
    then show ?case by (intro wf_inv_image wf_lex_prod wf_less_than)
  next
    case (2 h t visited topo)
    then show ?case
      by (cases "t < length h") (auto simp: inputs_of_def ins out)
  next
    case (3 h input rest st)
    then show ?case by auto
  next
    case (4 h input rest st)
    then show ?case
      using grows(1)[of h input st] mono[of "fst st" "fst (build_topo h input st)" h]
      by auto
  qed
qed

declare build_topo.simps [simp del]

text \<open>
  \<^verbatim>\<open>backward\<close>: build the order from \<^verbatim>\<open>this\<close>, fill the own gradient with 1.0, and call
  each \<^verbatim>\<open>backward_fn_\<close> along \<^verbatim>\<open>topo.rbegin() .. topo.rend()\<close>.
\<close>

definition backward :: "heap \<Rightarrow> addr \<Rightarrow> heap" where
  "backward h this =
     (case build_topo h this ({}, []) of (visited, topo) \<Rightarrow>
        fold (\<lambda>t h'. run_backward_fn (backward_fn (h' ! t)) h') (rev topo)
          (h[this := (h ! this)\<lparr>grad := map (\<lambda>_. 1) (grad (h ! this))\<rparr>]))"

text \<open>
  \<^verbatim>\<open>zero_grad\<close> has no visited set: it is a plain recursion over \<^verbatim>\<open>inputs_\<close>, which
  returns only when the graph below \<^verbatim>\<open>this\<close> has no cycle. The model counts the depth of
  the recursion with fuel; \<open>None\<close> is the recursion that has not returned within it.
\<close>

fun zero_grad :: "nat \<Rightarrow> heap \<Rightarrow> addr \<Rightarrow> heap option" where
  "zero_grad 0 h this = None"
| "zero_grad (Suc fuel) h this =
     fold (\<lambda>input r. case r of None \<Rightarrow> None | Some h' \<Rightarrow> zero_grad fuel h' input)
       (inputs (h ! this))
       (Some (h[this := (h ! this)\<lparr>grad := map (\<lambda>_. 0) (grad (h ! this))\<rparr>]))"

section \<open>The optimizers of core/darv\_optimizer.hpp\<close>

text \<open>
  The \<^verbatim>\<open>unordered_map<Tensor*, vector<double>>\<close> members are functions from addresses
  with the empty vector as default, which is what \<^verbatim>\<open>operator[]\<close> inserts. \<^verbatim>\<open>t_\<close>, \<^verbatim>\<open>m_\<close>
  and \<^verbatim>\<open>v_\<close> of Adam are \<open>adam_t\<close>, \<open>adam_m\<close> and \<open>adam_v\<close>.
\<close>

record Optimizer =
  parameters :: "addr list"
  learning_rate :: real

record SGD = Optimizer +
  momentum :: real
  nesterov :: bool
  velocity :: "addr \<Rightarrow> real list"


text \<open>\<^verbatim>\<open>map[param.get()].resize(param->size(), 0.0)\<close>.\<close>

definition resize_entry :: "heap \<Rightarrow> addr \<Rightarrow> (addr \<Rightarrow> real list) \<Rightarrow> addr \<Rightarrow> real list" where
  "resize_entry h param vel = vel(param := resize (vel param) (tsize (h ! param)) 0)"

definition SGD_init :: "heap \<Rightarrow> addr list \<Rightarrow> real \<Rightarrow> real \<Rightarrow> bool \<Rightarrow> SGD" where
  "SGD_init h ps lr mom nest =
     \<lparr>parameters = ps, learning_rate = lr, momentum = mom, nesterov = nest,
      velocity = (if mom > 0 then fold (resize_entry h) ps (\<lambda>_. []) else (\<lambda>_. []))\<rparr>"

text \<open>The bodies of the two element loops of \<^verbatim>\<open>SGD::step\<close>, for the parameter \<open>param\<close>.\<close>

definition SGD_momentum_elem :: "addr \<Rightarrow> nat \<Rightarrow> SGD \<times> heap \<Rightarrow> SGD \<times> heap" where
  "SGD_momentum_elem param i st =
     (case st of (opt, h) \<Rightarrow>
        let v = (velocity opt param)
                  [i := momentum opt * velocity opt param ! i
                        + learning_rate opt * grad (h ! param) ! i];
            d = data (h ! param);
            d' = (if nesterov opt
                  then d[i := d ! i - (momentum opt * v ! i
                                       + learning_rate opt * grad (h ! param) ! i)]
                  else d[i := d ! i - v ! i])
        in (opt\<lparr>velocity := (velocity opt)(param := v)\<rparr>,
            h[param := (h ! param)\<lparr>data := d'\<rparr>]))"

definition SGD_plain_elem :: "addr \<Rightarrow> nat \<Rightarrow> SGD \<times> heap \<Rightarrow> SGD \<times> heap" where
  "SGD_plain_elem param i st =
     (case st of (opt, h) \<Rightarrow>
        let d = data (h ! param)
        in (opt, h[param := (h ! param)
              \<lparr>data := d[i := d ! i - learning_rate opt * grad (h ! param) ! i]\<rparr>]))"

definition SGD_param :: "addr \<Rightarrow> SGD \<times> heap \<Rightarrow> SGD \<times> heap" where
  "SGD_param param st =
     (case st of (opt, h) \<Rightarrow>
        if \<not> requires_grad (h ! param) then (opt, h)
        else if momentum opt > 0
        then for_loop (tsize (h ! param)) (SGD_momentum_elem param) (opt, h)
        else for_loop (tsize (h ! param)) (SGD_plain_elem param) (opt, h))"

definition SGD_step :: "SGD \<Rightarrow> heap \<Rightarrow> SGD \<times> heap" where
  "SGD_step opt h = fold SGD_param (parameters opt) (opt, h)"






section \<open>Predicates of the specification\<close>

text \<open>
  The invariant of the data model, in the form the code keeps it: \<open>tsize\<close> is
  \<open>compute_size\<close> of the shape, the data buffer has \<open>tsize\<close> elements, and the gradient
  buffer has \<open>tsize\<close> elements when the tensor requires a gradient and none otherwise.
\<close>

definition tensor_inv :: "Tensor \<Rightarrow> bool" where
  "tensor_inv t =
     (tsize t = compute_size (shape t) \<and> length (data t) = tsize t
      \<and> length (grad t) = (if requires_grad t then tsize t else 0))"

text \<open>
  What an operation on the heap \<open>h\<close> with the operands \<open>ins\<close> returns: the next address,
  the old heap with one new cell, that cell a tensor that keeps the invariant, has \<open>ins\<close>
  as its inputs and requires a gradient iff one of the operands does.
\<close>

definition op_result_ok :: "heap \<Rightarrow> addr list \<Rightarrow> addr \<times> heap \<Rightarrow> bool" where
  "op_result_ok h ins res =
     (case res of (r, h') \<Rightarrow>
        r = length h \<and> h' = h @ [h' ! r] \<and> tensor_inv (h' ! r) \<and> inputs (h' ! r) = ins
        \<and> requires_grad (h' ! r) = list_ex (\<lambda>a. requires_grad (h ! a)) ins)"

text \<open>
  Frame predicates for one step of an optimizer: \<open>same_at p\<close> says that the tensor \<open>p\<close>
  and its per-parameter state are untouched, \<open>same_params\<close> that the heap keeps its length
  and the optimizer its hyperparameters.
\<close>

definition SGD_same_at :: "addr \<Rightarrow> SGD \<times> heap \<Rightarrow> SGD \<times> heap \<Rightarrow> bool" where
  "SGD_same_at p st st' =
     (snd st' ! p = snd st ! p \<and> velocity (fst st') p = velocity (fst st) p)"

definition SGD_same_params :: "SGD \<times> heap \<Rightarrow> SGD \<times> heap \<Rightarrow> bool" where
  "SGD_same_params st st' =
     (length (snd st') = length (snd st) \<and> momentum (fst st') = momentum (fst st)
      \<and> nesterov (fst st') = nesterov (fst st) \<and> learning_rate (fst st') = learning_rate (fst st)
      \<and> parameters (fst st') = parameters (fst st))"



text \<open>
  The graph of a heap. Every tensor in \<open>inputs\<close> was constructed before the tensor itself,
  so in a heap built by the operations each input has a smaller address (\<open>wf_heap\<close>).
  \<open>reach h t\<close> is \<open>t\<close> with everything below it along \<open>inputs\<close>; \<open>zero_grads S h\<close> is
  \<open>h\<close> with the gradient buffers at the addresses in \<open>S\<close> filled with zeros.
\<close>

definition wf_heap :: "heap \<Rightarrow> bool" where
  "wf_heap h = (\<forall>a<length h. \<forall>i\<in>set (inputs (h ! a)). i < a)"

definition edges :: "heap \<Rightarrow> (addr \<times> addr) set" where
  "edges h = {(a, i). i \<in> set (inputs_of h a)}"

definition reach :: "heap \<Rightarrow> addr \<Rightarrow> addr set" where
  "reach h t = (edges h)\<^sup>* `` {t}"

definition zero_grads :: "addr set \<Rightarrow> heap \<Rightarrow> heap" where
  "zero_grads S h =
     map (\<lambda>a. if a \<in> S then (h ! a)\<lparr>grad := map (\<lambda>_. 0) (grad (h ! a))\<rparr> else h ! a)
       [0..<length h]"

text \<open>
  An execution order runs consumers first when every tensor in it comes before all of its
  inputs and occurs once. \<open>dfs_inv\<close> is the invariant of \<open>build_topo\<close>: \<open>S\<close> are the
  tensors whose visit has started and not ended.
\<close>

fun consumers_first :: "heap \<Rightarrow> addr list \<Rightarrow> bool" where
  "consumers_first h [] = True"
| "consumers_first h (t # rest) =
     (list_all (\<lambda>i. i \<in> set rest) (inputs_of h t) \<and> t \<notin> set rest \<and> consumers_first h rest)"

definition dfs_inv :: "heap \<Rightarrow> addr set \<Rightarrow> addr set \<times> addr list \<Rightarrow> bool" where
  "dfs_inv h S st =
     (case st of (visited, topo) \<Rightarrow>
        visited = set topo \<union> S \<and> set topo \<inter> S = {} \<and> consumers_first h (rev topo))"

section \<open>Test graphs for the autograd engine\<close>

text \<open>
  The five elementwise operators of one tensor (\<^verbatim>\<open>multiply_scalar\<close>, \<^verbatim>\<open>pow\<close>,
  \<^verbatim>\<open>relu\<close>, \<^verbatim>\<open>sigmoid\<close>, \<^verbatim>\<open>tanh_\<close>) are collected in one
  datatype so that a graph can be built for any of them: \<open>apply_unop\<close> calls the operator
  of the source, \<open>unop_value\<close> and \<open>unop_coeff\<close> name the forward value and the local
  derivative that its closure multiplies with the gradient of the result, and \<open>unop_back\<close> is
  the closure that the operator stores.  \<open>branch_graph\<close> is the program
  \<^verbatim>\<open>x = from_data(xs, s, rg); y = x->op(); r = y->sum()\<close> and \<open>diamond_graph\<close> the program
  \<^verbatim>\<open>x = from_data(xs, s, rg); y1 = x->op1(); y2 = x->op2(); a = y1->add(y2); r = a->sum()\<close>,
  both run on the empty heap; \<open>reshape_graph\<close> is \<open>branch_graph\<close> with a \<^verbatim>\<open>reshape\<close> to
  \<open>s1\<close> and a \<^verbatim>\<open>reshape\<close> back to the shape of \<open>x\<close> put between \<open>x\<close> and the operator.  \<open>shift_grad a d h\<close> adds \<open>d\<close> elementwise to the gradient
  buffer of tensor \<open>a\<close>, and \<open>result_of\<close> is the result tensor captured by a closure.
\<close>

datatype unop = MulScalar real | Pow real | Relu | Sigmoid | Tanh

fun apply_unop :: "unop \<Rightarrow> heap \<Rightarrow> addr \<Rightarrow> addr \<times> heap" where
  "apply_unop (MulScalar c) h a = multiply_scalar h a c"
| "apply_unop (Pow e) h a = pow h a e"
| "apply_unop Relu h a = relu h a"
| "apply_unop Sigmoid h a = sigmoid h a"
| "apply_unop Tanh h a = tanh_op h a"

fun unop_value :: "unop \<Rightarrow> real \<Rightarrow> real" where
  "unop_value (MulScalar c) x = x * c"
| "unop_value (Pow e) x = std_pow x e"
| "unop_value Relu x = max 0 x"
| "unop_value Sigmoid x = 1 / (1 + exp (- x))"
| "unop_value Tanh x = tanh x"

fun unop_coeff :: "unop \<Rightarrow> real \<Rightarrow> real \<Rightarrow> real" where
  "unop_coeff (MulScalar c) x y = c"
| "unop_coeff (Pow e) x y = e * std_pow x (e - 1)"
| "unop_coeff Relu x y = (if x > 0 then 1 else 0)"
| "unop_coeff Sigmoid x y = y * (1 - y)"
| "unop_coeff Tanh x y = 1 - y * y"

fun unop_back :: "unop \<Rightarrow> addr \<Rightarrow> addr \<Rightarrow> backward_fn" where
  "unop_back (MulScalar c) a r = MultiplyScalarBack a c r"
| "unop_back (Pow e) a r = PowBack a e r"
| "unop_back Relu a r = ReluBack a r"
| "unop_back Sigmoid a r = SigmoidBack a r"
| "unop_back Tanh a r = TanhBack a r"

definition branch_graph :: "unop \<Rightarrow> real list \<Rightarrow> Shape \<Rightarrow> bool \<Rightarrow> (addr \<times> heap) option" where
  "branch_graph op xs s rg =
     (case from_data [] xs s rg of
        (Inl e, h0) \<Rightarrow> None
      | (Inr x, h0) \<Rightarrow> (case apply_unop op h0 x of (y, h1) \<Rightarrow> Some (sum_op h1 y)))"




definition reshape_graph ::
  "unop \<Rightarrow> real list \<Rightarrow> Shape \<Rightarrow> Shape \<Rightarrow> bool \<Rightarrow> (addr \<times> heap) option" where
  "reshape_graph op xs s s1 rg =
     (case from_data [] xs s rg of
        (Inl e, h0) \<Rightarrow> None
      | (Inr x, h0) \<Rightarrow>
          (case reshape h0 x s1 of
             (Inl e, h1) \<Rightarrow> None
           | (Inr r1, h1) \<Rightarrow>
               (case reshape h1 r1 (shape (h1 ! x)) of
                  (Inl e, h2) \<Rightarrow> None
                | (Inr r2, h2) \<Rightarrow>
                    (case apply_unop op h2 r2 of (y, h3) \<Rightarrow> Some (sum_op h3 y)))))"

section \<open>Loops, sizes and shapes\<close>

lemma compute_size_foldl:
  "foldl (\<lambda>acc d. (acc * d) mod 2 ^ 64) a s = (a * prod_list s) mod 2 ^ 64" if "a < 2 ^ 64" for a :: nat
  using that
proof (induction s arbitrary: a)
  case Nil
  then show ?case by simp
next
  case (Cons d s)
  have "foldl (\<lambda>acc d. (acc * d) mod 2 ^ 64) ((a * d) mod 2 ^ 64) s = ((a * d) mod 2 ^ 64 * prod_list s) mod 2 ^ 64"
    by (rule Cons.IH) simp
  then show ?case
    by (simp add: mod_mult_left_eq mult.assoc)
qed

lemma compute_size_prod_list:
  "compute_size s = (if s = [] then 0 else prod_list s mod 2 ^ 64)"
  using compute_size_foldl[of 1 s] by (simp add: compute_size_def)

lemma for_loop_0: "for_loop 0 body s = s"
  by (simp add: for_loop_def)

lemma for_loop_Suc: "for_loop (Suc n) body s = body n (for_loop n body s)"
  by (simp add: for_loop_def)

lemma for_loop_length:
  "(\<And>i d. length (body i d) = length d) \<Longrightarrow> length (for_loop n body d) = length d"
  by (induction n) (simp_all add: for_loop_0 for_loop_Suc)

lemma resize_Nil: "resize [] n v = replicate n v"
  by (simp add: resize_def)

lemma shapes_compatible_eq: "shapes_compatible s1 s2 = (s1 = s2)"
proof (cases "length s1 = length s2")
  case True
  then show ?thesis
    unfolding shapes_compatible_def list_all_iff
    by (subst list_eq_iff_nth_eq) auto
next
  case False
  then show ?thesis by (auto simp: shapes_compatible_def)
qed

lemma tensor_inv_of_shape: "tensor_inv (Tensor_of_shape s rg)"
  by (simp add: tensor_inv_def Tensor_of_shape_def resize_Nil)

lemma tensor_inv_of_data: "Tensor_of_data d s rg = Inr t \<Longrightarrow> tensor_inv t"
  by (auto simp: tensor_inv_def Tensor_of_data_def resize_Nil split: if_splits)

lemma length_elementwise:
  "length (for_loop n (\<lambda>i d. d[i := f i]) d0) = length d0"
  by (rule for_loop_length) simp

lemma unary_ok:
  "op_result_ok h [a]
     (length h, h @ [(Tensor_of_shape (shape (h ! a)) (requires_grad (h ! a)))
        \<lparr>data := for_loop n (\<lambda>i d. d[i := f i]) (data (Tensor_of_shape (shape (h ! a)) (requires_grad (h ! a)))),
         inputs := [a], backward_fn := bf\<rparr>])"
  using tensor_inv_of_shape[of "shape (h ! a)" "requires_grad (h ! a)"]
  by (simp add: op_result_ok_def tensor_inv_def length_elementwise)
     (simp add: Tensor_of_shape_def)

lemma multiply_scalar_ok: "op_result_ok h [a] (multiply_scalar h a c)"
  unfolding multiply_scalar_def Let_def by (rule unary_ok)

lemma pow_ok: "op_result_ok h [a] (pow h a c)"
  unfolding pow_def Let_def by (rule unary_ok)

lemma relu_ok: "op_result_ok h [a] (relu h a)"
  unfolding relu_def Let_def by (rule unary_ok)

lemma sigmoid_ok: "op_result_ok h [a] (sigmoid h a)"
  unfolding sigmoid_def Let_def by (rule unary_ok)

lemma tanh_ok: "op_result_ok h [a] (tanh_op h a)"
  unfolding tanh_op_def Let_def by (rule unary_ok)

lemma sum_ok: "op_result_ok h [a] (sum_op h a)"
  using tensor_inv_of_shape[of "[1]" "requires_grad (h ! a)"]
  by (simp add: sum_op_def Let_def op_result_ok_def tensor_inv_def)
     (simp add: Tensor_of_shape_def)

lemma binary_ok:
  "op_result_ok h [a, b]
     (length h, h @ [(Tensor_of_shape s (requires_grad (h ! a) \<or> requires_grad (h ! b)))
        \<lparr>data := for_loop n (\<lambda>i d. d[i := f i]) (data (Tensor_of_shape s (requires_grad (h ! a) \<or> requires_grad (h ! b)))),
         inputs := [a, b], backward_fn := bf\<rparr>])"
  using tensor_inv_of_shape[of s "requires_grad (h ! a) \<or> requires_grad (h ! b)"]
  by (simp add: op_result_ok_def tensor_inv_def length_elementwise)
     (simp add: Tensor_of_shape_def)

lemma add_ok: "add h a b = (Inr r, h') \<Longrightarrow> op_result_ok h [a, b] (r, h')"
  using binary_ok[of h a b]
  by (auto simp: add_def Let_def split: if_splits)

lemma multiply_ok: "multiply h a b = (Inr r, h') \<Longrightarrow> op_result_ok h [a, b] (r, h')"
  using binary_ok[of h a b]
  by (auto simp: multiply_def Let_def split: if_splits)

lemma reshape_ok: "reshape h a s = (Inr r, h') \<Longrightarrow> op_result_ok h [a] (r, h')"
  by (auto simp: reshape_def Let_def op_result_ok_def tensor_inv_def Tensor_of_data_def resize_Nil
      split: if_splits sum.splits)

lemma flatten_ok: "flatten h a = (Inr r, h') \<Longrightarrow> op_result_ok h [a] (r, h')"
  unfolding flatten_def by (rule reshape_ok)








lemma matmul_ok: "matmul h a b = (Inr r, h') \<Longrightarrow> op_result_ok h [a, b] (r, h')"
proof -
  assume a: "matmul h a b = (Inr r, h')"
  have len: "length (for_loop m (\<lambda>i. for_loop n (\<lambda>j d. d[i * n + j := f i j])) d) = length d" for m n f and d :: "real list"
    by (intro for_loop_length) simp
  from a show ?thesis
    using tensor_inv_of_shape[of "[shape (h ! a) ! 0, shape (h ! b) ! 1]" "requires_grad (h ! a) \<or> requires_grad (h ! b)"]
    by (auto simp: matmul_def Let_def op_result_ok_def tensor_inv_def len split: if_splits)
       (simp_all add: Tensor_of_shape_def)
qed

lemma fold_plus_sum_list: "fold (\<lambda>val sum_val. sum_val + val) xs (s::real) = s + sum_list xs"
  by (induction xs arbitrary: s) simp_all

lemma mean_None_iff: "a < length h \<Longrightarrow> mean h a = None \<longleftrightarrow> tsize (h ! a) = 0"
  by (simp add: mean_def sum_op_def Let_def double_div_def nth_append split: prod.splits)

lemma mean_Some:
  assumes "a < length h" "tsize (h ! a) > 0"
  shows "\<exists>h1 t. mean h a = Some (Suc (length h), h1 @ [t]) \<and> h1 = snd (sum_op h a)
           \<and> data t = [sum_list (data (h ! a)) * (1 / real (tsize (h ! a)))]"
  using assms
  by (simp add: mean_def sum_op_def multiply_scalar_def Let_def double_div_def nth_append
      Tensor_of_shape_def resize_Nil compute_size_def for_loop_def fold_plus_sum_list)

lemma from_data_cases:
  "from_data h d s rg =
     (if length d \<noteq> compute_size s then (Inl (runtime_error ''Data size doesn't match shape''), h)
      else (Inr (length h), h @ [\<lparr>data = d, grad = (if rg then replicate (compute_size s) 0 else []),
              shape = s, tsize = compute_size s, requires_grad = rg, inputs = [], backward_fn = NoOp\<rparr>]))"
  by (simp add: from_data_def Tensor_of_data_def make_shared_def resize_Nil)

lemma reshape_cases:
  "length (data (h ! this)) = tsize (h ! this) \<Longrightarrow> reshape h this s =
     (if compute_size s \<noteq> tsize (h ! this)
      then (Inl (runtime_error ''New shape size doesn't match tensor size''), h)
      else (Inr (length h), h @ [\<lparr>data = data (h ! this),
              grad = (if requires_grad (h ! this) then replicate (compute_size s) 0 else []),
              shape = s, tsize = compute_size s, requires_grad = requires_grad (h ! this),
              inputs = [this], backward_fn = ReshapeBack this (length h)\<rparr>]))"
  by (simp add: reshape_def Tensor_of_data_def Let_def resize_Nil)

lemma factory_inv:
  "tensor_inv (snd (zeros h s rg) ! fst (zeros h s rg))"
  "tensor_inv (snd (ones h s rg) ! fst (ones h s rg))"
  "tensor_inv (snd (randn h s rg draws) ! fst (randn h s rg draws))"
  using tensor_inv_of_shape[of s rg]
  by (simp_all add: zeros_def ones_def randn_def make_shared_def Let_def tensor_inv_def
      length_elementwise)

lemma factory_requires_grad:
  "requires_grad (Tensor_of_shape s rg) = rg"
  "requires_grad (snd (zeros h s rg) ! fst (zeros h s rg)) = rg"
  "requires_grad (snd (ones h s rg) ! fst (ones h s rg)) = rg"
  "requires_grad (snd (randn h s rg draws) ! fst (randn h s rg draws)) = rg"
  by (simp_all add: zeros_def ones_def randn_def make_shared_def Let_def Tensor_of_shape_def)

lemma mean_ok:
  assumes "a < length h" "mean h a = Some (r, h')"
  shows "op_result_ok (snd (sum_op h a)) [fst (sum_op h a)] (r, h')
         \<and> requires_grad (h' ! r) = requires_grad (h ! a)"
proof -
  obtain s h1 where s: "sum_op h a = (s, h1)" by (cases "sum_op h a")
  with assms(2) obtain c where c: "multiply_scalar h1 s c = (r, h')"
    by (auto simp: mean_def split: option.splits)
  have 1: "op_result_ok h [a] (s, h1)" using sum_ok[of h a] s by simp
  have 2: "op_result_ok h1 [s] (r, h')" using multiply_scalar_ok[of h1 s c] c by simp
  from 1 2 show ?thesis
    by (auto simp: s op_result_ok_def)
qed

section \<open>Reachability and zero\_grad\<close>

lemma wf_heap_inputs_of: "wf_heap h \<Longrightarrow> i \<in> set (inputs_of h a) \<Longrightarrow> i < a"
  by (auto simp: wf_heap_def inputs_of_def split: if_splits)

lemma reach_self: "t \<in> reach h t"
  by (simp add: reach_def)

lemma reach_step: "i \<in> set (inputs_of h t) \<Longrightarrow> reach h i \<subseteq> reach h t"
  unfolding reach_def edges_def
  by (auto intro: converse_rtrancl_into_rtrancl)

lemma reach_unfold: "reach h t = insert t (\<Union>i\<in>set (inputs_of h t). reach h i)"
proof
  show "reach h t \<subseteq> insert t (\<Union>i\<in>set (inputs_of h t). reach h i)"
  proof
    fix a assume "a \<in> reach h t"
    then have "(t, a) \<in> (edges h)\<^sup>*" by (simp add: reach_def)
    then show "a \<in> insert t (\<Union>i\<in>set (inputs_of h t). reach h i)"
    proof (cases rule: converse_rtranclE)
      case base
      then show ?thesis by simp
    next
      case (step i)
      then show ?thesis by (auto simp: reach_def edges_def)
    qed
  qed
next
  show "insert t (\<Union>i\<in>set (inputs_of h t). reach h i) \<subseteq> reach h t"
    using reach_self[of t h] reach_step[of _ h t] by auto
qed

lemma reach_below: "wf_heap h \<Longrightarrow> a \<in> reach h t \<Longrightarrow> a \<le> t"
proof -
  assume wf: "wf_heap h" and "a \<in> reach h t"
  then have "(t, a) \<in> (edges h)\<^sup>*" by (simp add: reach_def)
  then show "a \<le> t"
  proof (induction rule: rtrancl_induct)
    case base
    then show ?case by simp
  next
    case (step y z)
    then have "z < y" using wf_heap_inputs_of[OF wf] by (simp add: edges_def)
    with step show ?case by simp
  qed
qed

lemma length_zero_grads: "length (zero_grads S h) = length h"
  by (simp add: zero_grads_def)

lemma nth_zero_grads:
  "a < length h \<Longrightarrow> zero_grads S h ! a
     = (if a \<in> S then (h ! a)\<lparr>grad := map (\<lambda>_. 0) (grad (h ! a))\<rparr> else h ! a)"
  by (simp add: zero_grads_def)

lemma inputs_of_zero_grads: "inputs_of (zero_grads S h) a = inputs_of h a"
  by (simp add: inputs_of_def length_zero_grads nth_zero_grads)

lemma reach_zero_grads: "reach (zero_grads S h) t = reach h t"
  by (simp add: reach_def edges_def inputs_of_zero_grads)

lemma wf_heap_zero_grads: "wf_heap h \<Longrightarrow> wf_heap (zero_grads S h)"
  by (auto simp: wf_heap_def length_zero_grads nth_zero_grads)

lemma zero_grads_twice: "zero_grads A (zero_grads B h) = zero_grads (A \<union> B) h"
  by (rule nth_equalityI) (auto simp: length_zero_grads nth_zero_grads)

lemma zero_grads_single:
  "t < length h \<Longrightarrow> h[t := (h ! t)\<lparr>grad := map (\<lambda>_. 0) (grad (h ! t))\<rparr>] = zero_grads {t} h"
  by (rule nth_equalityI) (auto simp: length_zero_grads nth_zero_grads nth_list_update)

lemma zero_grad_closed:
  "wf_heap h \<Longrightarrow> t < length h \<Longrightarrow> t < fuel \<Longrightarrow>
   zero_grad fuel h t = Some (zero_grads (reach h t) h)"
proof (induction fuel arbitrary: h t)
  case 0
  then show ?case by simp
next
  case (Suc fuel)
  let ?step = "\<lambda>input r. case r of None \<Rightarrow> None | Some h' \<Rightarrow> zero_grad fuel h' input"
  have loop: "fold ?step ins (Some (zero_grads S h))
        = Some (zero_grads (S \<union> (\<Union>i\<in>set ins. reach h i)) h)"
    if "\<forall>i\<in>set ins. i < t" for ins S
    using that
  proof (induction ins arbitrary: S)
    case Nil
    then show ?case by simp
  next
    case (Cons i ins)
    have i: "i < length (zero_grads S h)" "i < fuel"
      using Cons.prems Suc.prems by (simp_all add: length_zero_grads)
    have "zero_grad fuel (zero_grads S h) i = Some (zero_grads (reach h i \<union> S) h)"
      using Suc.IH[OF wf_heap_zero_grads[OF Suc.prems(1)] i]
      by (simp add: reach_zero_grads zero_grads_twice)
    moreover have "fold ?step ins (Some (zero_grads (reach h i \<union> S) h))
        = Some (zero_grads ((reach h i \<union> S) \<union> (\<Union>i\<in>set ins. reach h i)) h)"
      using Cons.prems by (intro Cons.IH) simp
    ultimately show ?case
      by (simp add: Un_ac)
  qed
  have ins: "\<forall>i\<in>set (inputs (h ! t)). i < t"
    using Suc.prems by (simp add: wf_heap_def)
  have "inputs_of h t = inputs (h ! t)"
    using Suc.prems by (simp add: inputs_of_def)
  then have r: "reach h t = {t} \<union> (\<Union>i\<in>set (inputs (h ! t)). reach h i)"
    using reach_unfold[of h t] by simp
  show ?case
    using loop[OF ins, of "{t}"] Suc.prems(2)
    by (simp add: zero_grads_single r)
qed

section \<open>The topological order of backward\<close>

lemma consumers_first_distinct: "consumers_first h order \<Longrightarrow> distinct order"
  by (induction order) auto

lemma consumers_first_closed:
  "consumers_first h order \<Longrightarrow> a \<in> set order \<Longrightarrow> i \<in> set (inputs_of h a) \<Longrightarrow> i \<in> set order"
  by (induction order) (auto simp: list_all_iff)

lemma consumers_first_reach:
  assumes "consumers_first h order" "t \<in> set order"
  shows "reach h t \<subseteq> set order"
proof
  fix a assume "a \<in> reach h t"
  then have "(t, a) \<in> (edges h)\<^sup>*" by (simp add: reach_def)
  then show "a \<in> set order"
  proof (induction rule: rtrancl_induct)
    case base
    then show ?case using assms(2) by simp
  next
    case (step y z)
    then show ?case
      using consumers_first_closed[OF assms(1), of y z] by (simp add: edges_def)
  qed
qed

lemma build_topo_inv:
  "\<forall>S. wf_heap h \<longrightarrow> dfs_inv h S st \<longrightarrow> (\<forall>s\<in>S. t < s) \<longrightarrow>
     dfs_inv h S (build_topo h t st) \<and> t \<in> set (snd (build_topo h t st))
     \<and> set (snd st) \<subseteq> set (snd (build_topo h t st))
     \<and> set (snd (build_topo h t st)) \<subseteq> set (snd st) \<union> reach h t
     \<and> (t \<notin> fst st \<longrightarrow> snd (build_topo h t st) \<noteq> [] \<and> last (snd (build_topo h t st)) = t)"
  "\<forall>S. wf_heap h \<longrightarrow> dfs_inv h S st \<longrightarrow> (\<forall>s\<in>S. \<forall>i\<in>set ins. i < s) \<longrightarrow>
     dfs_inv h S (build_topo_inputs h ins st) \<and> set ins \<subseteq> set (snd (build_topo_inputs h ins st))
     \<and> set (snd st) \<subseteq> set (snd (build_topo_inputs h ins st))
     \<and> set (snd (build_topo_inputs h ins st)) \<subseteq> set (snd st) \<union> (\<Union>i\<in>set ins. reach h i)"
proof (induction h t st and h ins st rule: build_topo_build_topo_inputs.induct)
  case (1 h t visited topo)
  show ?case
  proof (intro allI impI)
    fix S
    assume wf: "wf_heap h" and inv: "dfs_inv h S (visited, topo)" and S: "\<forall>s\<in>S. t < s"
    from inv have v: "visited = set topo \<union> S" and disj: "set topo \<inter> S = {}"
      and cf: "consumers_first h (rev topo)"
      by (simp_all add: dfs_inv_def)
    from S have tS: "t \<notin> S" by auto
    show "dfs_inv h S (build_topo h t (visited, topo)) \<and>
         t \<in> set (snd (build_topo h t (visited, topo))) \<and>
         set (snd (visited, topo)) \<subseteq> set (snd (build_topo h t (visited, topo))) \<and>
         set (snd (build_topo h t (visited, topo))) \<subseteq> set (snd (visited, topo)) \<union> reach h t \<and>
         (t \<notin> fst (visited, topo) \<longrightarrow>
            snd (build_topo h t (visited, topo)) \<noteq> [] \<and> last (snd (build_topo h t (visited, topo))) = t)"
    proof (cases "t \<in> visited")
      case True
      with v tS have "t \<in> set topo" by simp
      with True inv show ?thesis by (simp add: build_topo.simps)
    next
      case False
      obtain visited' topo' where r: "build_topo_inputs h (inputs_of h t) (insert t visited, topo) = (visited', topo')"
        by (cases "build_topo_inputs h (inputs_of h t) (insert t visited, topo)")
      have inv0: "dfs_inv h (insert t S) (insert t visited, topo)"
        using v disj cf False by (auto simp: dfs_inv_def)
      have lt: "\<forall>s\<in>insert t S. \<forall>i\<in>set (inputs_of h t). i < s"
        using S wf_heap_inputs_of[OF wf, of _ t] by force
      from spec[OF "1.IH"[OF False], of "insert t S"] wf inv0 lt
      have "dfs_inv h (insert t S) (build_topo_inputs h (inputs_of h t) (insert t visited, topo))
         \<and> set (inputs_of h t) \<subseteq> set (snd (build_topo_inputs h (inputs_of h t) (insert t visited, topo)))
         \<and> set (snd (insert t visited, topo)) \<subseteq> set (snd (build_topo_inputs h (inputs_of h t) (insert t visited, topo)))
         \<and> set (snd (build_topo_inputs h (inputs_of h t) (insert t visited, topo)))
             \<subseteq> set (snd (insert t visited, topo)) \<union> (\<Union>i\<in>set (inputs_of h t). reach h i)"
        by blast
      then have inv': "dfs_inv h (insert t S) (visited', topo')"
        and ins: "set (inputs_of h t) \<subseteq> set topo'"
        and mono: "set topo \<subseteq> set topo'"
        and sound: "set topo' \<subseteq> set topo \<union> (\<Union>i\<in>set (inputs_of h t). reach h i)"
        by (simp_all add: r)
      from inv' have v': "visited' = set topo' \<union> insert t S" and disj': "set topo' \<inter> insert t S = {}"
        and cf': "consumers_first h (rev topo')"
        by (simp_all add: dfs_inv_def)
      have res: "build_topo h t (visited, topo) = (visited', topo' @ [t])"
        using False r by (simp add: build_topo.simps)
      have "dfs_inv h S (visited', topo' @ [t])"
        using v' disj' cf' ins tS by (auto simp: dfs_inv_def list_all_iff)
      moreover have "set (topo' @ [t]) \<subseteq> set topo \<union> reach h t"
        using sound reach_unfold[of h t] by auto
      ultimately show ?thesis
        using mono unfolding res by auto
    qed
  qed
next
  case (2 h st)
  then show ?case by simp
next
  case (3 h input rest st)
  show ?case
  proof (intro allI impI)
    fix S
    assume wf: "wf_heap h" and inv: "dfs_inv h S st" and S: "\<forall>s\<in>S. \<forall>i\<in>set (input # rest). i < s"
    let ?st1 = "build_topo h input st"
    from S have S1: "\<forall>s\<in>S. input < s" and S2: "\<forall>s\<in>S. \<forall>i\<in>set rest. i < s" by auto
    from spec[OF "3.IH"(1), of S] wf inv S1
    have "dfs_inv h S ?st1 \<and> input \<in> set (snd ?st1)
     \<and> set (snd st) \<subseteq> set (snd ?st1)
     \<and> set (snd ?st1) \<subseteq> set (snd st) \<union> reach h input"
      by blast
    then have inv1: "dfs_inv h S ?st1" and in1: "input \<in> set (snd ?st1)"
      and mono1: "set (snd st) \<subseteq> set (snd ?st1)"
      and sound1: "set (snd ?st1) \<subseteq> set (snd st) \<union> reach h input"
      by simp_all
    from spec[OF "3.IH"(2), of S] wf inv1 S2
    have "dfs_inv h S (build_topo_inputs h rest ?st1) \<and> set rest \<subseteq> set (snd (build_topo_inputs h rest ?st1))
     \<and> set (snd ?st1) \<subseteq> set (snd (build_topo_inputs h rest ?st1))
     \<and> set (snd (build_topo_inputs h rest ?st1)) \<subseteq> set (snd ?st1) \<union> (\<Union>i\<in>set rest. reach h i)"
      by blast
    then have inv2: "dfs_inv h S (build_topo_inputs h rest ?st1)"
      and in2: "set rest \<subseteq> set (snd (build_topo_inputs h rest ?st1))"
      and mono2: "set (snd ?st1) \<subseteq> set (snd (build_topo_inputs h rest ?st1))"
      and sound2: "set (snd (build_topo_inputs h rest ?st1)) \<subseteq> set (snd ?st1) \<union> (\<Union>i\<in>set rest. reach h i)"
      by simp_all
    show "dfs_inv h S (build_topo_inputs h (input # rest) st) \<and>
         set (input # rest) \<subseteq> set (snd (build_topo_inputs h (input # rest) st)) \<and>
         set (snd st) \<subseteq> set (snd (build_topo_inputs h (input # rest) st)) \<and>
         set (snd (build_topo_inputs h (input # rest) st)) \<subseteq> set (snd st) \<union> (\<Union>i\<in>set (input # rest). reach h i)"
      using inv2 in1 in2 mono1 mono2 sound1 sound2 by auto
  qed
qed

lemma op_result_wf:
  assumes "op_result_ok h ins (r, h')" "wf_heap h" "\<forall>i\<in>set ins. i < length h"
  shows "wf_heap h'"
proof -
  from assms(1) have r: "r = length h" and h': "h' = h @ [h' ! r]" and ins: "inputs (h' ! r) = ins"
    by (auto simp: op_result_ok_def)
  show ?thesis
    unfolding wf_heap_def
  proof (intro allI impI ballI)
    fix a i assume a: "a < length h'" and i: "i \<in> set (inputs (h' ! a))"
    from h' have len: "length h' = Suc (length h)"
      by (metis length_append_singleton)
    show "i < a"
    proof (cases "a < length h")
      case True
      then have "h' ! a = h ! a" by (subst h') (simp add: nth_append)
      with i True assms(2) show ?thesis by (simp add: wf_heap_def)
    next
      case False
      with a len have "a = r" using r by simp
      with i ins assms(3) r show ?thesis by simp
    qed
  qed
qed

section \<open>The element loops of the optimizers\<close>

lemma for_loop_invariant:
  "P s \<Longrightarrow> (\<And>i s. i < n \<Longrightarrow> P s \<Longrightarrow> P (body i s)) \<Longrightarrow> P (for_loop n body s)"
  by (induction n) (simp_all add: for_loop_0 for_loop_Suc)

lemma prefix_nth:
  "n \<le> length xs \<Longrightarrow> i < n \<Longrightarrow> (map f [0..<n] @ drop n xs) ! i = f i"
  "n < length xs \<Longrightarrow> (map f [0..<n] @ drop n xs) ! n = xs ! n"
  by (simp_all add: nth_append)

lemma prefix_update:
  "n < length xs \<Longrightarrow> (map f [0..<n] @ drop n xs)[n := y] = map f [0..<n] @ y # drop (Suc n) xs"
  by (simp add: list_update_append Cons_nth_drop_Suc[symmetric])

lemma prefix_nth_mid: "(map f [0..<n] @ y # ys) ! n = y"
  by (simp add: nth_append)

lemma fun_upd_if_same: "(\<lambda>a. if a = p then f p else f a) = f"
  by auto

lemma SGD_momentum_elem_cell:
  "p < length h \<Longrightarrow>
   SGD_momentum_elem p i (opt\<lparr>velocity := (velocity opt)(p := V)\<rparr>, h[p := (h ! p)\<lparr>data := D\<rparr>])
   = (opt\<lparr>velocity := (velocity opt)
          (p := V[i := momentum opt * V ! i + learning_rate opt * grad (h ! p) ! i])\<rparr>,
      h[p := (h ! p)\<lparr>data :=
          (if nesterov opt
           then D[i := D ! i - (momentum opt
                    * V[i := momentum opt * V ! i + learning_rate opt * grad (h ! p) ! i] ! i
                    + learning_rate opt * grad (h ! p) ! i)]
           else D[i := D ! i
                    - V[i := momentum opt * V ! i + learning_rate opt * grad (h ! p) ! i] ! i])\<rparr>])"
  by (simp add: SGD_momentum_elem_def Let_def)

lemma SGD_momentum_loop:
  assumes "n \<le> length (velocity opt p)" "n \<le> length (data (h ! p))" "p < length h"
  shows "for_loop n (SGD_momentum_elem p) (opt, h)
         = (opt\<lparr>velocity := (velocity opt)(p :=
                map (\<lambda>i. momentum opt * velocity opt p ! i + learning_rate opt * grad (h ! p) ! i) [0..<n]
                @ drop n (velocity opt p))\<rparr>,
            h[p := (h ! p)\<lparr>data :=
                map (\<lambda>i. data (h ! p) ! i -
                      (if nesterov opt
                       then momentum opt * (momentum opt * velocity opt p ! i + learning_rate opt * grad (h ! p) ! i)
                            + learning_rate opt * grad (h ! p) ! i
                       else momentum opt * velocity opt p ! i + learning_rate opt * grad (h ! p) ! i)) [0..<n]
                @ drop n (data (h ! p))\<rparr>])"
  using assms
proof (induction n)
  case 0
  then show ?case by (simp add: for_loop_0 fun_upd_if_same)
next
  case (Suc n)
  from Suc.prems have n: "n < length (velocity opt p)" "n < length (data (h ! p))"
    by simp_all
  have IH: "for_loop n (SGD_momentum_elem p) (opt, h)
         = (opt\<lparr>velocity := (velocity opt)(p :=
                map (\<lambda>i. momentum opt * velocity opt p ! i + learning_rate opt * grad (h ! p) ! i) [0..<n]
                @ drop n (velocity opt p))\<rparr>,
            h[p := (h ! p)\<lparr>data :=
                map (\<lambda>i. data (h ! p) ! i -
                      (if nesterov opt
                       then momentum opt * (momentum opt * velocity opt p ! i + learning_rate opt * grad (h ! p) ! i)
                            + learning_rate opt * grad (h ! p) ! i
                       else momentum opt * velocity opt p ! i + learning_rate opt * grad (h ! p) ! i)) [0..<n]
                @ drop n (data (h ! p))\<rparr>])"
    by (rule Suc.IH) (use Suc.prems in simp_all)
  show ?case
    unfolding for_loop_Suc IH
    by (subst SGD_momentum_elem_cell[OF \<open>p < length h\<close>]) (simp add: prefix_nth prefix_update prefix_nth_mid n)
qed

lemma SGD_plain_elem_cell:
  "p < length h \<Longrightarrow>
   SGD_plain_elem p i (opt, h[p := (h ! p)\<lparr>data := D\<rparr>])
   = (opt, h[p := (h ! p)\<lparr>data := D[i := D ! i - learning_rate opt * grad (h ! p) ! i]\<rparr>])"
  by (simp add: SGD_plain_elem_def Let_def)

lemma SGD_plain_loop:
  assumes "n \<le> length (data (h ! p))" "p < length h"
  shows "for_loop n (SGD_plain_elem p) (opt, h)
         = (opt, h[p := (h ! p)\<lparr>data :=
                map (\<lambda>i. data (h ! p) ! i - learning_rate opt * grad (h ! p) ! i) [0..<n]
                @ drop n (data (h ! p))\<rparr>])"
  using assms
proof (induction n)
  case 0
  then show ?case by (simp add: for_loop_0)
next
  case (Suc n)
  from Suc.prems have n: "n < length (data (h ! p))"
    by simp_all
  have IH: "for_loop n (SGD_plain_elem p) (opt, h)
         = (opt, h[p := (h ! p)\<lparr>data :=
                map (\<lambda>i. data (h ! p) ! i - learning_rate opt * grad (h ! p) ! i) [0..<n]
                @ drop n (data (h ! p))\<rparr>])"
    by (rule Suc.IH) (use Suc.prems in simp_all)
  show ?case
    unfolding for_loop_Suc IH
    by (subst SGD_plain_elem_cell[OF \<open>p < length h\<close>]) (simp add: prefix_nth prefix_update prefix_nth_mid n)
qed

lemma SGD_param_same_params: "SGD_same_params st (SGD_param q st)"
proof -
  obtain opt h where st: "st = (opt, h)" by (cases st)
  have 1: "SGD_same_params st (for_loop n (SGD_momentum_elem q) st)" for n
    by (rule for_loop_invariant)
       (auto simp: SGD_same_params_def SGD_momentum_elem_def Let_def split: prod.splits)
  have 2: "SGD_same_params st (for_loop n (SGD_plain_elem q) st)" for n
    by (rule for_loop_invariant)
       (auto simp: SGD_same_params_def SGD_plain_elem_def Let_def split: prod.splits)
  show ?thesis
    using 1 2 unfolding SGD_param_def st
    by (auto simp: SGD_same_params_def)
qed

lemma SGD_param_same_at: "q \<noteq> p \<Longrightarrow> SGD_same_at p st (SGD_param q st)"
proof -
  assume qp: "q \<noteq> p"
  obtain opt h where st: "st = (opt, h)" by (cases st)
  have 1: "SGD_same_at p st (for_loop n (SGD_momentum_elem q) st)" for n
    by (rule for_loop_invariant)
       (use qp in \<open>auto simp: SGD_same_at_def SGD_momentum_elem_def Let_def split: prod.splits\<close>)
  have 2: "SGD_same_at p st (for_loop n (SGD_plain_elem q) st)" for n
    by (rule for_loop_invariant)
       (use qp in \<open>auto simp: SGD_same_at_def SGD_plain_elem_def Let_def split: prod.splits\<close>)
  show ?thesis
    using 1 2 unfolding SGD_param_def st
    by (auto simp: SGD_same_at_def)
qed

lemma SGD_fold_same_params: "SGD_same_params st (fold SGD_param qs st)"
proof (induction qs arbitrary: st)
  case Nil
  then show ?case by (simp add: SGD_same_params_def)
next
  case (Cons q qs)
  from SGD_param_same_params[of st q] Cons[of "SGD_param q st"]
  show ?case by (simp add: SGD_same_params_def)
qed

lemma SGD_fold_same_at: "p \<notin> set qs \<Longrightarrow> SGD_same_at p st (fold SGD_param qs st)"
proof (induction qs arbitrary: st)
  case Nil
  then show ?case by (simp add: SGD_same_at_def)
next
  case (Cons q qs)
  from SGD_param_same_at[of q p st] Cons.IH[of "SGD_param q st"] Cons.prems
  show ?case by (simp add: SGD_same_at_def)
qed

lemma resize_zero: "xs = [] \<or> xs = replicate n v \<Longrightarrow> resize xs n v = replicate n v"
  by (auto simp: resize_def)

lemma resize_entries:
  "(\<forall>q. vel q = [] \<or> vel q = replicate (tsize (h ! q)) 0) \<Longrightarrow>
   fold (resize_entry h) ps vel = (\<lambda>q. if q \<in> set ps then replicate (tsize (h ! q)) 0 else vel q)"
proof (induction ps arbitrary: vel)
  case Nil
  then show ?case by simp
next
  case (Cons a ps)
  have a: "resize (vel a) (tsize (h ! a)) 0 = replicate (tsize (h ! a)) 0"
    using Cons.prems resize_zero[of "vel a" "tsize (h ! a)" 0] by auto
  have inv: "\<forall>q. resize_entry h a vel q = [] \<or> resize_entry h a vel q = replicate (tsize (h ! q)) 0"
    using Cons.prems by (simp add: resize_entry_def a)
  show ?case
    by (simp add: Cons.IH[OF inv]) (auto simp: resize_entry_def a)
qed

lemma SGD_init_velocity:
  assumes "mom > 0" "p \<in> set ps"
  shows "velocity (SGD_init h ps lr mom nest) p = replicate (tsize (h ! p)) 0"
  using assms by (simp add: SGD_init_def resize_entries)

lemma SGD_param_skip: "\<not> requires_grad (h ! p) \<Longrightarrow> SGD_param p (opt, h) = (opt, h)"
  by (simp add: SGD_param_def)

lemma SGD_step_split:
  assumes "distinct (parameters opt)" "p \<in> set (parameters opt)"
  shows "\<exists>pre post. p \<notin> set pre \<and> p \<notin> set post
     \<and> SGD_step opt h = fold SGD_param post (SGD_param p (fold SGD_param pre (opt, h)))"
proof -
  from split_list[OF assms(2)] obtain pre post where pp: "parameters opt = pre @ p # post"
    by blast
  with assms(1) have "p \<notin> set pre" "p \<notin> set post" by auto
  moreover have "SGD_step opt h = fold SGD_param post (SGD_param p (fold SGD_param pre (opt, h)))"
    by (simp add: SGD_step_def pp)
  ultimately show ?thesis by blast
qed












section \<open>Closures of the operators and gradient accumulation\<close>

lemma elementwise_fill:
  "n \<le> length d \<Longrightarrow> for_loop n (\<lambda>i d. d[i := f i]) d = map f [0..<n] @ drop n d"
proof (induction n)
  case 0
  then show ?case by (simp add: for_loop_0)
next
  case (Suc n)
  then show ?case
    by (simp add: for_loop_Suc prefix_update)
qed

lemma elementwise_fill_all:
  "for_loop n (\<lambda>i d. d[i := f i]) (replicate n z) = map f [0..<n]"
  by (simp add: elementwise_fill)

lemma apply_unop_closed:
  assumes "tsize (h ! a) = compute_size (shape (h ! a))"
  shows "apply_unop op h a =
    (length h, h @ [\<lparr>data = map (\<lambda>i. unop_value op (data (h ! a) ! i)) [0..<tsize (h ! a)],
                     grad = (if requires_grad (h ! a) then replicate (tsize (h ! a)) 0 else []),
                     shape = shape (h ! a), tsize = tsize (h ! a),
                     requires_grad = requires_grad (h ! a), inputs = [a],
                     backward_fn = unop_back op a (length h)\<rparr>])"
  using assms
  by (cases op)
     (simp_all add: multiply_scalar_def pow_def relu_def sigmoid_def tanh_op_def Let_def
        Tensor_of_shape_def resize_Nil elementwise_fill_all)

lemma grad_add_cell:
  "a < length h \<Longrightarrow> grad_add a i v (h[a := (h ! a)\<lparr>grad := G\<rparr>])
     = h[a := (h ! a)\<lparr>grad := G[i := G ! i + v]\<rparr>]"
  by (simp add: grad_add_def)

lemma accumulate_loop:
  assumes "a < length h" "n \<le> length (grad (h ! a))"
    and "\<And>G i. c (h[a := (h ! a)\<lparr>grad := G\<rparr>]) i = c h i"
  shows "for_loop n (\<lambda>i h'. grad_add a i (c h' i) h') h
       = h[a := (h ! a)\<lparr>grad := map (\<lambda>i. grad (h ! a) ! i + c h i) [0..<n] @ drop n (grad (h ! a))\<rparr>]"
  using assms(2)
proof (induction n)
  case 0
  then show ?case by (simp add: for_loop_0)
next
  case (Suc n)
  then have n: "n < length (grad (h ! a))" by simp
  have IH: "for_loop n (\<lambda>i h'. grad_add a i (c h' i) h') h
       = h[a := (h ! a)\<lparr>grad := map (\<lambda>i. grad (h ! a) ! i + c h i) [0..<n] @ drop n (grad (h ! a))\<rparr>]"
    by (rule Suc.IH) (use Suc.prems in simp)
  show ?case
    unfolding for_loop_Suc IH assms(3)
    by (subst grad_add_cell[OF assms(1)]) (simp add: prefix_nth prefix_update n)
qed

lemma accumulate_closed:
  assumes "a < length h" "tsize (h ! a) = length (grad (h ! a))"
    and "\<And>G i. c (h[a := (h ! a)\<lparr>grad := G\<rparr>]) i = c h i"
  shows "accumulate a c h =
     (if requires_grad (h ! a)
      then h[a := (h ! a)\<lparr>grad := map (\<lambda>i. grad (h ! a) ! i + c h i) [0..<tsize (h ! a)]\<rparr>]
      else h)"
  using accumulate_loop[OF assms(1), of "tsize (h ! a)" c] assms(2,3)
  by (simp add: accumulate_def)

lemma if_one_zero_mult: "(if b then 1 else 0) * (g::real) = (if b then g else 0)"
  by simp

lemma unop_back_run:
  "run_backward_fn (unop_back op a r) h
     = accumulate a (\<lambda>h i. unop_coeff op (data (h ! a) ! i) (data (h ! r) ! i) * grad (h ! r) ! i) h"
  by (cases op) (simp_all add: mult.assoc if_one_zero_mult)

lemma sum_back_run:
  "run_backward_fn (SumBack a r) h = accumulate a (\<lambda>h i. grad (h ! r) ! 0) h"
  by simp

lemma map_upt_replicate:
  "map (\<lambda>i. f i (replicate n z ! i)) [0..<n] = map (\<lambda>i. f i z) [0..<n]"
  by (rule map_cong) auto

lemma map_upt_map:
  "map (\<lambda>i. f i (map g [0..<n] ! i)) [0..<n] = map (\<lambda>i. f i (g i)) [0..<n]"
  by (rule map_cong) auto

lemma acc_replicate:
  "map (\<lambda>i. replicate n z ! i + c i) [0..<n] = map (\<lambda>i. z + c i) [0..<n]"
  "map (\<lambda>i. g i + k i * replicate n z ! i) [0..<n] = map (\<lambda>i. g i + k i * z) [0..<n]"
  "map (\<lambda>i. g i + replicate n z ! i) [0..<n] = map (\<lambda>i. g i + z) [0..<n]"
  "map (\<lambda>i. map g' [0..<n] ! i + c i) [0..<n] = map (\<lambda>i. g' i + c i) [0..<n]"
  by (rule map_cong; auto)+


lemma chain_backward:
  assumes X: "inputs X = []" "backward_fn X = NoOp" "requires_grad X = rg" "tsize X = n"
      "grad X = (if rg then replicate n 0 else [])"
    and Y: "inputs Y = [0]" "backward_fn Y = unop_back op 0 1" "requires_grad Y = rg" "tsize Y = n"
      "grad Y = (if rg then replicate n 0 else [])"
    and R: "inputs R = [1]" "backward_fn R = SumBack 1 2" "requires_grad R = rg" "tsize R = 1"
      "grad R = (if rg then [0] else [])"
  shows "grad (backward [X, Y, R] 2 ! 0)
           = (if rg then map (\<lambda>i. unop_coeff op (data X ! i) (data Y ! i)) [0..<n] else [])"
proof -
  have topo: "build_topo [X, Y, R] 2 ({}, []) = ({0, 1, 2}, [0, 1, 2])"
    by (simp add: build_topo.simps inputs_of_def X Y R insert_commute)
  show ?thesis
  proof (cases rg)
    case False
    then show ?thesis
      by (simp add: backward_def topo R Y X unop_back_run accumulate_def)
  next
    case True
    let ?R' = "R\<lparr>grad := [1]\<rparr>"
    have s2: "accumulate (Suc 0) (\<lambda>h i. grad (h ! 2) ! 0) [X, Y, ?R'] = [X, Y\<lparr>grad := replicate n 1\<rparr>, ?R']"
      using True by (subst accumulate_closed) (simp_all add: Y map_replicate_trivial acc_replicate)
    let ?Y' = "Y\<lparr>grad := replicate n 1\<rparr>"
    have s1: "run_backward_fn (unop_back op 0 (Suc 0)) [X, ?Y', ?R']
         = [X\<lparr>grad := map (\<lambda>i. unop_coeff op (data X ! i) (data Y ! i)) [0..<n]\<rparr>, ?Y', ?R']"
      unfolding unop_back_run
      using True by (subst accumulate_closed) (simp_all add: X acc_replicate)
    show ?thesis
      using True by (simp add: backward_def topo R Y X s2 s1)
  qed
qed


lemma unop_back_inject [simp]:
  "unop_back op a r = unop_back op a' r' \<longleftrightarrow> a = a' \<and> r = r'"
  by (cases op) auto


lemma branch_graph_grad:
  assumes "length xs = compute_size s"
  shows "\<exists>h. branch_graph op xs s rg = Some (2, h) \<and> length h = 3
          \<and> data (h ! 0) = xs \<and> inputs (h ! 1) = [0] \<and> inputs (h ! 2) = [1]
          \<and> grad (backward h 2 ! 0)
            = (if rg then map (\<lambda>i. unop_coeff op (xs ! i) (unop_value op (xs ! i)))
                          [0..<length xs] else [])"
proof -
  let ?n = "length xs"
  let ?X = "\<lparr>data = xs, grad = (if rg then replicate ?n 0 else []), shape = s, tsize = ?n,
             requires_grad = rg, inputs = [], backward_fn = NoOp\<rparr>"
  let ?Y = "\<lparr>data = map (\<lambda>i. unop_value op (xs ! i)) [0..<?n],
             grad = (if rg then replicate ?n 0 else []), shape = s, tsize = ?n,
             requires_grad = rg, inputs = [0], backward_fn = unop_back op 0 1\<rparr>"
  let ?R = "\<lparr>data = [sum_list (map (\<lambda>i. unop_value op (xs ! i)) [0..<?n])],
             grad = (if rg then [0] else []), shape = [1], tsize = 1,
             requires_grad = rg, inputs = [1], backward_fn = SumBack 1 2\<rparr>"
  have 0: "from_data [] xs s rg = (Inr 0, [?X])"
    using assms by (simp add: from_data_cases)
  have 1: "apply_unop op [?X] 0 = (1, [?X, ?Y])"
    using assms by (subst apply_unop_closed; cases rg) simp_all
  have 2: "sum_op [?X, ?Y] 1 = (2, [?X, ?Y, ?R])"
    by (cases rg) (simp_all add: sum_op_def Let_def Tensor_of_shape_def resize_Nil compute_size_def
        fold_plus_sum_list)
  have g: "branch_graph op xs s rg = Some (2, [?X, ?Y, ?R])"
    by (simp only: branch_graph_def 0 1 2 prod.case sum.case)
  have "grad (backward [?X, ?Y, ?R] 2 ! 0)
           = (if rg then map (\<lambda>i. unop_coeff op (data ?X ! i) (data ?Y ! i)) [0..<?n] else [])"
    by (rule chain_backward) simp_all
  also have "\<dots> = (if rg then map (\<lambda>i. unop_coeff op (xs ! i) (unop_value op (xs ! i)))
                          [0..<?n] else [])"
    by (simp cong: map_cong)
  finally show ?thesis
    using g by (intro exI[of _ "[?X, ?Y, ?R]"]) simp
qed















section \<open>Reshape and its closure\<close>

lemma map_nth_map_upt: "map ((!) (map g [0..<n])) [0..<n] = map g [0..<n]"
  using map_nth[of "map g [0..<n]"] by simp

lemma reshape_back_copy:
  assumes "a < length h" "requires_grad (h ! a)" "tsize (h ! a) = n"
    "grad (h ! a) = replicate n 0" "r \<noteq> a" "length (grad (h ! r)) = n"
  shows "run_backward_fn (ReshapeBack a r) h = h[a := (h ! a)\<lparr>grad := grad (h ! r)\<rparr>]"
proof -
  have "map (\<lambda>i. replicate n 0 ! i + grad (h ! r) ! i) [0..<n] = map (\<lambda>i. grad (h ! r) ! i) [0..<n]"
    by (rule map_cong) auto
  also have "\<dots> = grad (h ! r)"
    using map_nth[of "grad (h ! r)"] assms(6) by simp
  finally have m: "map (\<lambda>i. replicate n 0 ! i + grad (h ! r) ! i) [0..<n] = grad (h ! r)" .
  have "run_backward_fn (ReshapeBack a r) h
          = h[a := (h ! a)\<lparr>grad := map (\<lambda>i. grad (h ! a) ! i + grad (h ! r) ! i) [0..<tsize (h ! a)]\<rparr>]"
    using assms(1,2,3,4,5) by (simp, subst accumulate_closed) simp_all
  then show ?thesis
    using assms(3,4) m by simp
qed

lemma reshape_chain_backward:
  assumes X: "inputs X = []" "backward_fn X = NoOp" "requires_grad X = rg" "tsize X = n"
      "grad X = (if rg then replicate n 0 else [])"
    and R1: "inputs R1 = [0]" "backward_fn R1 = ReshapeBack 0 1" "requires_grad R1 = rg"
      "tsize R1 = n" "grad R1 = (if rg then replicate n 0 else [])"
    and R2: "inputs R2 = [1]" "backward_fn R2 = ReshapeBack 1 2" "requires_grad R2 = rg"
      "tsize R2 = n" "grad R2 = (if rg then replicate n 0 else [])"
    and Y: "inputs Y = [2]" "backward_fn Y = unop_back op 2 3" "requires_grad Y = rg"
      "tsize Y = n" "grad Y = (if rg then replicate n 0 else [])"
    and R: "inputs R = [3]" "backward_fn R = SumBack 3 4" "requires_grad R = rg" "tsize R = 1"
      "grad R = (if rg then [0] else [])"
  shows "grad (backward [X, R1, R2, Y, R] 4 ! 0)
           = (if rg then map (\<lambda>i. unop_coeff op (data R2 ! i) (data Y ! i)) [0..<n] else [])"
proof -
  have topo: "build_topo [X, R1, R2, Y, R] 4 ({}, []) = ({0, 1, 2, 3, 4}, [0, 1, 2, 3, 4])"
    by (simp add: build_topo.simps inputs_of_def X R1 R2 Y R insert_commute)
  show ?thesis
  proof (cases rg)
    case False
    then show ?thesis
      by (simp add: backward_def topo R Y R2 R1 X unop_back_run accumulate_def)
  next
    case True
    let ?G = "map (\<lambda>i. unop_coeff op (data R2 ! i) (data Y ! i)) [0..<n]"
    let ?R' = "R\<lparr>grad := [1]\<rparr>"
    let ?Y' = "Y\<lparr>grad := replicate n 1\<rparr>"
    let ?R2' = "R2\<lparr>grad := ?G\<rparr>"
    let ?R1' = "R1\<lparr>grad := ?G\<rparr>"
    let ?X' = "X\<lparr>grad := ?G\<rparr>"
    have s4: "run_backward_fn (SumBack 3 4) [X, R1, R2, Y, ?R'] = [X, R1, R2, ?Y', ?R']"
      unfolding sum_back_run
      using True by (subst accumulate_closed) (simp_all add: Y map_replicate_trivial acc_replicate)
    have s3: "run_backward_fn (unop_back op 2 3) [X, R1, R2, ?Y', ?R'] = [X, R1, ?R2', ?Y', ?R']"
      unfolding unop_back_run
      using True by (subst accumulate_closed) (simp_all add: R2 acc_replicate)
    have s2: "run_backward_fn (ReshapeBack (Suc 0) 2) [X, R1, ?R2', ?Y', ?R'] = [X, ?R1', ?R2', ?Y', ?R']"
      using True by (subst reshape_back_copy[where n = n]) (simp_all add: R1)
    have s1: "run_backward_fn (ReshapeBack 0 (Suc 0)) [X, ?R1', ?R2', ?Y', ?R'] = [?X', ?R1', ?R2', ?Y', ?R']"
      using True by (subst reshape_back_copy[where n = n]) (simp_all add: X)
    show ?thesis
      using True by (simp add: backward_def topo R Y R2 R1 X s4 s3 s2 s1 del: run_backward_fn.simps(2-11))
  qed
qed

lemma reshape_roundtrip:
  assumes "t < length h" and "length (data (h ! t)) = tsize (h ! t)"
    and "tsize (h ! t) = compute_size (shape (h ! t))" and "compute_size s1 = tsize (h ! t)"
  shows "\<exists>h1 h2. reshape h t s1 = (Inr (length h), h1)
           \<and> reshape h1 (length h) (shape (h1 ! t)) = (Inr (Suc (length h)), h2)
           \<and> h2 ! t = h ! t
           \<and> shape (h2 ! length h) = s1
           \<and> shape (h2 ! Suc (length h)) = shape (h ! t)
           \<and> data (h2 ! Suc (length h)) = data (h ! t)
           \<and> tsize (h2 ! Suc (length h)) = tsize (h ! t)
           \<and> requires_grad (h2 ! Suc (length h)) = requires_grad (h ! t)"
proof -
  let ?T1 = "\<lparr>data = data (h ! t),
              grad = (if requires_grad (h ! t) then replicate (compute_size s1) 0 else []),
              shape = s1, tsize = compute_size s1, requires_grad = requires_grad (h ! t),
              inputs = [t], backward_fn = ReshapeBack t (length h)\<rparr>"
  let ?h1 = "h @ [?T1]"
  let ?T2 = "\<lparr>data = data (h ! t),
              grad = (if requires_grad (h ! t) then replicate (compute_size (shape (h ! t))) 0 else []),
              shape = shape (h ! t), tsize = compute_size (shape (h ! t)),
              requires_grad = requires_grad (h ! t),
              inputs = [length h], backward_fn = ReshapeBack (length h) (Suc (length h))\<rparr>"
  have 1: "reshape h t s1 = (Inr (length h), ?h1)"
    using assms(2,4) by (simp add: reshape_cases)
  have t1: "?h1 ! t = h ! t" "?h1 ! length h = ?T1"
    using assms(1) by (simp_all add: nth_append)
  have 2: "reshape ?h1 (length h) (shape (?h1 ! t)) = (Inr (Suc (length h)), ?h1 @ [?T2])"
    unfolding t1(1)
    using assms(2,3,4) by (subst reshape_cases) (simp_all add: t1(2))
  have 3: "(?h1 @ [?T2]) ! t = h ! t" "(?h1 @ [?T2]) ! length h = ?T1"
    "(?h1 @ [?T2]) ! Suc (length h) = ?T2"
    using assms(1) by (simp_all add: nth_append)
  show ?thesis
    apply (rule exI[of _ ?h1], rule exI[of _ "?h1 @ [?T2]"])
    unfolding 3
    using 1 2 assms(3) by simp
qed

lemma reshape_graph_grad:
  assumes "length xs = compute_size s" and "compute_size s1 = compute_size s"
  shows "\<exists>h. reshape_graph op xs s s1 rg = Some (4, h) \<and> length h = 5
          \<and> data (h ! 0) = xs \<and> shape (h ! 0) = s
          \<and> inputs (h ! 1) = [0] \<and> shape (h ! 1) = s1
          \<and> inputs (h ! 2) = [1] \<and> shape (h ! 2) = s \<and> data (h ! 2) = xs
          \<and> inputs (h ! 3) = [2] \<and> inputs (h ! 4) = [3] \<and> tsize (h ! 4) = 1
          \<and> grad (backward h 4 ! 0)
            = (if rg then map (\<lambda>i. unop_coeff op (xs ! i) (unop_value op (xs ! i)))
                          [0..<length xs] else [])"
proof -
  let ?n = "length xs"
  let ?X = "\<lparr>data = xs, grad = (if rg then replicate ?n 0 else []), shape = s, tsize = ?n,
             requires_grad = rg, inputs = [], backward_fn = NoOp\<rparr>"
  let ?R1 = "\<lparr>data = xs, grad = (if rg then replicate ?n 0 else []), shape = s1, tsize = ?n,
             requires_grad = rg, inputs = [0], backward_fn = ReshapeBack 0 1\<rparr>"
  let ?R2 = "\<lparr>data = xs, grad = (if rg then replicate ?n 0 else []), shape = s, tsize = ?n,
             requires_grad = rg, inputs = [1], backward_fn = ReshapeBack 1 2\<rparr>"
  let ?Y = "\<lparr>data = map (\<lambda>i. unop_value op (xs ! i)) [0..<?n],
             grad = (if rg then replicate ?n 0 else []), shape = s, tsize = ?n,
             requires_grad = rg, inputs = [2], backward_fn = unop_back op 2 3\<rparr>"
  let ?R = "\<lparr>data = [sum_list (map (\<lambda>i. unop_value op (xs ! i)) [0..<?n])],
             grad = (if rg then [0] else []), shape = [1], tsize = 1,
             requires_grad = rg, inputs = [3], backward_fn = SumBack 3 4\<rparr>"
  have 0: "from_data [] xs s rg = (Inr 0, [?X])"
    using assms by (simp add: from_data_cases)
  have 1: "reshape [?X] 0 s1 = (Inr 1, [?X, ?R1])"
    using assms by (subst reshape_cases; cases rg) simp_all
  have x: "shape ([?X, ?R1] ! 0) = s" by simp
  have 2: "reshape [?X, ?R1] 1 s = (Inr 2, [?X, ?R1, ?R2])"
    using assms by (subst reshape_cases; cases rg) simp_all
  have 3: "apply_unop op [?X, ?R1, ?R2] 2 = (3, [?X, ?R1, ?R2, ?Y])"
    using assms by (subst apply_unop_closed; cases rg) simp_all
  have 4: "sum_op [?X, ?R1, ?R2, ?Y] 3 = (4, [?X, ?R1, ?R2, ?Y, ?R])"
    by (cases rg) (simp_all add: sum_op_def Let_def Tensor_of_shape_def resize_Nil compute_size_def
        fold_plus_sum_list)
  have g: "reshape_graph op xs s s1 rg = Some (4, [?X, ?R1, ?R2, ?Y, ?R])"
    by (simp only: reshape_graph_def 0 1 x 2 3 4 prod.case sum.case)
  have "grad (backward [?X, ?R1, ?R2, ?Y, ?R] 4 ! 0)
           = (if rg then map (\<lambda>i. unop_coeff op (data ?R2 ! i) (data ?Y ! i)) [0..<?n] else [])"
    by (rule reshape_chain_backward) simp_all
  also have "\<dots> = (if rg then map (\<lambda>i. unop_coeff op (xs ! i) (unop_value op (xs ! i)))
                          [0..<?n] else [])"
    by (simp cong: map_cong)
  finally show ?thesis
    using g by (intro exI[of _ "[?X, ?R1, ?R2, ?Y, ?R]"]) simp
qed

section \<open>Claim C1: gradients of a tensor with two consumers accumulate\<close>



section \<open>Claim C2: the backward engine\<close>

text \<open>
  C2. For every allocated root \<open>r\<close> of a heap built by the operations (\<open>wf_heap\<close>), of
  any size: the depth-first \<open>build_topo\<close> from \<open>r\<close> returns an order without repetition
  whose elements are exactly the tensors reachable from \<open>r\<close>; \<open>backward\<close> is total (no
  root is rejected), fills the whole gradient buffer of \<open>r\<close> with 1, and then runs the
  \<open>backward_fn\<close> of each tensor of the order once, along the reversed order, which starts
  at \<open>r\<close> and has every consumer strictly before each of its inputs.
\<close>

theorem C2_backward:
  assumes "wf_heap h" and "r < length h"
  shows "case build_topo h r ({}, []) of (visited, topo) \<Rightarrow>
           distinct topo \<and> set topo = reach h r \<and> visited = set topo
           \<and> consumers_first h (rev topo) \<and> hd (rev topo) = r
           \<and> grad (h[r := (h ! r)\<lparr>grad := map (\<lambda>_. 1) (grad (h ! r))\<rparr>] ! r)
               = replicate (length (grad (h ! r))) 1
           \<and> backward h r
               = fold (\<lambda>t h'. run_backward_fn (backward_fn (h' ! t)) h') (rev topo)
                   (h[r := (h ! r)\<lparr>grad := map (\<lambda>_. 1) (grad (h ! r))\<rparr>])"
proof -
  obtain visited topo where bt: "build_topo h r ({}, []) = (visited, topo)"
    by (cases "build_topo h r ({}, [])")
  have inv0: "dfs_inv h {} ({}, [])"
    by (simp add: dfs_inv_def)
  from spec[OF build_topo_inv(1)[of h "({}, [])" r], of "{}"] assms(1) inv0
  have inv: "dfs_inv h {} (visited, topo)" and r: "r \<in> set topo"
    and sound: "set topo \<subseteq> reach h r" and last: "topo \<noteq> []" "last topo = r"
    by (simp_all add: bt)
  from inv have v: "visited = set topo" and cf: "consumers_first h (rev topo)"
    by (simp_all add: dfs_inv_def)
  from consumers_first_reach[OF cf, of r] r have complete: "reach h r \<subseteq> set topo"
    by simp
  from consumers_first_distinct[OF cf] have d: "distinct topo" by simp
  have hd: "hd (rev topo) = r"
    using last by (simp add: hd_rev)
  have seed: "grad (h[r := (h ! r)\<lparr>grad := map (\<lambda>_. 1) (grad (h ! r))\<rparr>] ! r)
               = replicate (length (grad (h ! r))) 1"
    using assms(2) by (simp add: map_replicate_const)
  have b: "backward h r
               = fold (\<lambda>t h'. run_backward_fn (backward_fn (h' ! t)) h') (rev topo)
                   (h[r := (h ! r)\<lparr>grad := map (\<lambda>_. 1) (grad (h ! r))\<rparr>])"
    by (simp add: backward_def bt)
  from d sound complete v cf hd seed b show ?thesis
    by (simp add: bt)
qed

theorem C2_backward_witness:
  "distinct (snd (build_topo
      [\<lparr>data = [3, 4], grad = [0, 0], shape = [2], tsize = 2, requires_grad = True,
         inputs = [], backward_fn = NoOp\<rparr>,
       \<lparr>data = [6, 8], grad = [0, 0], shape = [2], tsize = 2, requires_grad = True,
         inputs = [0], backward_fn = MultiplyScalarBack 0 2 1\<rparr>,
       \<lparr>data = [9, 12], grad = [0, 0], shape = [2], tsize = 2, requires_grad = True,
         inputs = [1, 0], backward_fn = AddBack 1 0 2\<rparr>] 2 ({}, [])))
   \<and> snd (build_topo
      [\<lparr>data = [3, 4], grad = [0, 0], shape = [2], tsize = 2, requires_grad = True,
         inputs = [], backward_fn = NoOp\<rparr>,
       \<lparr>data = [6, 8], grad = [0, 0], shape = [2], tsize = 2, requires_grad = True,
         inputs = [0], backward_fn = MultiplyScalarBack 0 2 1\<rparr>,
       \<lparr>data = [9, 12], grad = [0, 0], shape = [2], tsize = 2, requires_grad = True,
         inputs = [1, 0], backward_fn = AddBack 1 0 2\<rparr>] 2 ({}, [])) = [0, 1, 2]
   \<and> grad (backward
      [\<lparr>data = [3, 4], grad = [0, 0], shape = [2], tsize = 2, requires_grad = True,
         inputs = [], backward_fn = NoOp\<rparr>,
       \<lparr>data = [6, 8], grad = [0, 0], shape = [2], tsize = 2, requires_grad = True,
         inputs = [0], backward_fn = MultiplyScalarBack 0 2 1\<rparr>,
       \<lparr>data = [9, 12], grad = [0, 0], shape = [2], tsize = 2, requires_grad = True,
         inputs = [1, 0], backward_fn = AddBack 1 0 2\<rparr>] 2 ! 2) = [1, 1]"
proof -
  define H :: heap where "H =
      [\<lparr>data = [3, 4], grad = [0, 0], shape = [2], tsize = 2, requires_grad = True,
         inputs = [], backward_fn = NoOp\<rparr>,
       \<lparr>data = [6, 8], grad = [0, 0], shape = [2], tsize = 2, requires_grad = True,
         inputs = [0], backward_fn = MultiplyScalarBack 0 2 1\<rparr>,
       \<lparr>data = [9, 12], grad = [0, 0], shape = [2], tsize = 2, requires_grad = True,
         inputs = [1, 0], backward_fn = AddBack 1 0 2\<rparr>]"
  have wf: "wf_heap H"
    by (auto simp: wf_heap_def H_def less_Suc_eq eval_nat_numeral)
  have len: "2 < length H" by (simp add: H_def)
  have topo: "build_topo H 2 ({}, []) = ({0, 1, 2}, [0, 1, 2])"
    by (simp add: H_def inputs_of_def insert_commute build_topo.simps)
  from C2_backward[OF wf len]
  have d: "distinct (snd (build_topo H 2 ({}, [])))"
    and b: "backward H 2
               = fold (\<lambda>t h'. run_backward_fn (backward_fn (h' ! t)) h') (rev (snd (build_topo H 2 ({}, []))))
                   (H[2 := (H ! 2)\<lparr>grad := map (\<lambda>_. 1) (grad (H ! 2))\<rparr>])"
    by (simp_all add: case_prod_unfold)
  have "grad (backward H 2 ! 2) = [1, 1]"
    unfolding b topo
    by (simp add: H_def accumulate_def grad_add_def for_loop_def eval_nat_numeral)
  with d topo have "distinct (snd (build_topo H 2 ({}, [])))
      \<and> snd (build_topo H 2 ({}, [])) = [0, 1, 2] \<and> grad (backward H 2 ! 2) = [1, 1]"
    by simp
  then show ?thesis unfolding H_def .
qed

section \<open>Claim C3: the Adam step\<close>



section \<open>Claim C4: the SGD step\<close>

text \<open>
  C4. For a tracked parameter \<open>p\<close> (tracked once, allocated, with \<open>tsize\<close> data and
  velocity elements) and every element \<open>i\<close>: the constructor zero-initialises the
  velocity when the momentum is positive; \<open>step\<close> never writes a gradient; it leaves a
  parameter with \<open>requires_grad\<close> false as it is; with a momentum that is not positive it
  performs \<open>data[i] -= lr * grad[i]\<close>; with a positive momentum \<open>m\<close> it first sets
  \<open>v[i] = m * v[i] + lr * grad[i]\<close> and then performs \<open>data[i] -= v[i]\<close>, or
  \<open>data[i] -= m * v[i] + lr * grad[i]\<close> with the updated \<open>v\<close> in the Nesterov variant.
\<close>

theorem C4_SGD_step:
  assumes "distinct (parameters opt)" and "p \<in> set (parameters opt)" and "p < length h"
    and "length (data (h ! p)) = tsize (h ! p)"
    and "length (velocity opt p) = (if momentum opt > 0 then tsize (h ! p) else 0)"
    and "i < tsize (h ! p)"
  shows "velocity (SGD_init h (parameters opt) lr (momentum opt) nest) p
           = (if momentum opt > 0 then replicate (tsize (h ! p)) 0 else [])
    \<and> (case SGD_step opt h of (opt', h') \<Rightarrow>
          grad (h' ! p) = grad (h ! p) \<and>
          (if \<not> requires_grad (h ! p)
           then h' ! p = h ! p \<and> velocity opt' p = velocity opt p
           else if momentum opt > 0
           then velocity opt' p ! i
                  = momentum opt * velocity opt p ! i + learning_rate opt * grad (h ! p) ! i
                \<and> data (h' ! p) ! i
                  = data (h ! p) ! i
                    - (if nesterov opt
                       then momentum opt * velocity opt' p ! i + learning_rate opt * grad (h ! p) ! i
                       else velocity opt' p ! i)
           else data (h' ! p) ! i = data (h ! p) ! i - learning_rate opt * grad (h ! p) ! i
                \<and> velocity opt' p = velocity opt p))"
proof -
  have init: "velocity (SGD_init h (parameters opt) lr (momentum opt) nest) p
           = (if momentum opt > 0 then replicate (tsize (h ! p)) 0 else [])"
    using SGD_init_velocity[of "momentum opt" p "parameters opt" h lr nest] assms(2)
    by (simp add: SGD_init_def)
  from SGD_step_split[OF assms(1,2), of h] obtain pre post where
    pp: "p \<notin> set pre" "p \<notin> set post"
    and step: "SGD_step opt h = fold SGD_param post (SGD_param p (fold SGD_param pre (opt, h)))"
    by blast
  obtain o1 h1 where s1: "fold SGD_param pre (opt, h) = (o1, h1)"
    by (cases "fold SGD_param pre (opt, h)")
  obtain o2 h2 where s2: "SGD_param p (o1, h1) = (o2, h2)"
    by (cases "SGD_param p (o1, h1)")
  obtain o3 h3 where s3: "fold SGD_param post (o2, h2) = (o3, h3)"
    by (cases "fold SGD_param post (o2, h2)")
  from SGD_fold_same_at[OF pp(1), of "(opt, h)"] SGD_fold_same_params[of "(opt, h)" pre]
  have f1: "h1 ! p = h ! p" "velocity o1 p = velocity opt p" "length h1 = length h"
    "momentum o1 = momentum opt" "nesterov o1 = nesterov opt" "learning_rate o1 = learning_rate opt"
    by (simp_all add: s1 SGD_same_at_def SGD_same_params_def)
  from SGD_fold_same_at[OF pp(2), of "(o2, h2)"]
  have f3: "h3 ! p = h2 ! p" "velocity o3 p = velocity o2 p"
    by (simp_all add: s3 SGD_same_at_def)
  have p1: "p < length h1" using assms(3) f1(3) by simp
  have mid: "grad (h2 ! p) = grad (h ! p) \<and>
          (if \<not> requires_grad (h ! p)
           then h2 ! p = h ! p \<and> velocity o2 p = velocity opt p
           else if momentum opt > 0
           then velocity o2 p ! i
                  = momentum opt * velocity opt p ! i + learning_rate opt * grad (h ! p) ! i
                \<and> data (h2 ! p) ! i
                  = data (h ! p) ! i
                    - (if nesterov opt
                       then momentum opt * velocity o2 p ! i + learning_rate opt * grad (h ! p) ! i
                       else velocity o2 p ! i)
           else data (h2 ! p) ! i = data (h ! p) ! i - learning_rate opt * grad (h ! p) ! i
                \<and> velocity o2 p = velocity opt p)"
  proof (cases "requires_grad (h ! p)")
    case False
    with s2 f1 show ?thesis by (simp add: SGD_param_def)
  next
    case rg: True
    show ?thesis
    proof (cases "momentum opt > 0")
      case True
      let ?n = "tsize (h ! p)"
      let ?V = "map (\<lambda>i. momentum opt * velocity opt p ! i + learning_rate opt * grad (h ! p) ! i) [0..<?n]
                @ drop ?n (velocity opt p)"
      let ?D = "map (\<lambda>i. data (h ! p) ! i -
                      (if nesterov opt
                       then momentum opt * (momentum opt * velocity opt p ! i + learning_rate opt * grad (h ! p) ! i)
                            + learning_rate opt * grad (h ! p) ! i
                       else momentum opt * velocity opt p ! i + learning_rate opt * grad (h ! p) ! i)) [0..<?n]
                @ drop ?n (data (h ! p))"
      have "for_loop ?n (SGD_momentum_elem p) (o1, h1) = (o2, h2)"
        using s2 rg True f1 by (simp add: SGD_param_def)
      moreover have "for_loop ?n (SGD_momentum_elem p) (o1, h1)
          = (o1\<lparr>velocity := (velocity o1)(p := ?V)\<rparr>, h1[p := (h1 ! p)\<lparr>data := ?D\<rparr>])"
        using SGD_momentum_loop[of ?n o1 p h1] assms(4,5) True p1 unfolding f1 by simp
      ultimately have eq: "(o2, h2) = (o1\<lparr>velocity := (velocity o1)(p := ?V)\<rparr>, h1[p := (h1 ! p)\<lparr>data := ?D\<rparr>])"
        by simp
      have o2: "velocity o2 p = ?V"
        using arg_cong[OF eq, of "\<lambda>st. velocity (fst st) p"] by simp
      have h2: "h2 ! p = (h ! p)\<lparr>data := ?D\<rparr>"
        using arg_cong[OF eq, of "\<lambda>st. snd st ! p"] p1 f1(1) by simp
      have V: "?V ! i = momentum opt * velocity opt p ! i + learning_rate opt * grad (h ! p) ! i"
        using assms(5,6) True by (intro prefix_nth(1)) simp_all
      have D: "?D ! i = data (h ! p) ! i -
                      (if nesterov opt
                       then momentum opt * (momentum opt * velocity opt p ! i + learning_rate opt * grad (h ! p) ! i)
                            + learning_rate opt * grad (h ! p) ! i
                       else momentum opt * velocity opt p ! i + learning_rate opt * grad (h ! p) ! i)"
        using assms(4,6) by (intro prefix_nth(1)) simp_all
      show ?thesis
        using rg True by (simp add: o2 h2 V D)
    next
      case False
      let ?n = "tsize (h ! p)"
      let ?D = "map (\<lambda>i. data (h ! p) ! i - learning_rate opt * grad (h ! p) ! i) [0..<?n]
                @ drop ?n (data (h ! p))"
      have "for_loop ?n (SGD_plain_elem p) (o1, h1) = (o2, h2)"
        using s2 rg False f1 by (simp add: SGD_param_def)
      moreover have "for_loop ?n (SGD_plain_elem p) (o1, h1)
          = (o1, h1[p := (h1 ! p)\<lparr>data := ?D\<rparr>])"
        using SGD_plain_loop[of ?n h1 p o1] assms(4) p1 unfolding f1 by simp
      ultimately have eq: "(o2, h2) = (o1, h1[p := (h1 ! p)\<lparr>data := ?D\<rparr>])"
        by simp
      have o2: "o2 = o1"
        using eq by simp
      have h2: "h2 ! p = (h ! p)\<lparr>data := ?D\<rparr>"
        using arg_cong[OF eq, of "\<lambda>st. snd st ! p"] p1 f1(1) by simp
      have D: "?D ! i = data (h ! p) ! i - learning_rate opt * grad (h ! p) ! i"
        using assms(4,6) by (intro prefix_nth(1)) simp_all
      show ?thesis
        using rg False by (simp add: o2 h2 D f1)
    qed
  qed
  have "SGD_step opt h = (o3, h3)" by (simp add: step s1 s2 s3)
  with init mid f3 show ?thesis by simp
qed

theorem C4_SGD_step_witness:
  "velocity (fst (SGD_step (SGD_init [\<lparr>data = [1, 2], grad = [1 / 2, - 1], shape = [2], tsize = 2,
        requires_grad = True, inputs = [], backward_fn = NoOp\<rparr>] [0] (1 / 10) (9 / 10) True)
      [\<lparr>data = [1, 2], grad = [1 / 2, - 1], shape = [2], tsize = 2,
        requires_grad = True, inputs = [], backward_fn = NoOp\<rparr>])) 0 ! 0 = 1 / 20
   \<and> data (snd (SGD_step (SGD_init [\<lparr>data = [1, 2], grad = [1 / 2, - 1], shape = [2], tsize = 2,
        requires_grad = True, inputs = [], backward_fn = NoOp\<rparr>] [0] (1 / 10) (9 / 10) True)
      [\<lparr>data = [1, 2], grad = [1 / 2, - 1], shape = [2], tsize = 2,
        requires_grad = True, inputs = [], backward_fn = NoOp\<rparr>]) ! 0) ! 0 = 1 - (9 / 10 * (1 / 20) + 1 / 20)"
proof -
  let ?h = "[\<lparr>data = [1, 2], grad = [1 / 2, - 1], shape = [2], tsize = 2,
        requires_grad = True, inputs = [], backward_fn = NoOp\<rparr>]"
  let ?opt = "SGD_init ?h [0] (1 / 10) (9 / 10) True"
  have v: "velocity ?opt 0 = [0, 0]"
    by (simp add: SGD_init_def resize_entry_def resize_def eval_nat_numeral)
  have o: "parameters ?opt = [0]" "momentum ?opt = 9 / 10" "learning_rate ?opt = 1 / 10" "nesterov ?opt"
    by (simp_all add: SGD_init_def)
  have "distinct (parameters ?opt)" "0 \<in> set (parameters ?opt)" "0 < length ?h"
    "length (data (?h ! 0)) = tsize (?h ! 0)"
    "length (velocity ?opt 0) = (if momentum ?opt > 0 then tsize (?h ! 0) else 0)"
    "0 < tsize (?h ! 0)"
    by (simp_all add: v o)
  from C4_SGD_step[OF this, of "1 / 10" True] show ?thesis
    by (simp add: case_prod_unfold v o)
qed

section \<open>Claim C5: matmul and its rank check\<close>



section \<open>Claim C6: the size checks of the data constructor and of reshape\<close>

text \<open>
  The claim as written compares with the product of the dimensions. \<open>compute_size\<close>
  multiplies in \<^verbatim>\<open>size_t\<close>: for the shape \<open>[2^32, 2^32]\<close> it is 0, so the constructor
  accepts empty data although the product of the dimensions is \<open>2^64\<close>.
\<close>

theorem C6_size_mismatch_counterexample:
  "length ([] :: real list) \<noteq> prod_list [4294967296, 4294967296 :: nat]
   \<and> from_data [] [] [4294967296, 4294967296] True
       = (Inr 0, [\<lparr>data = [], grad = [], shape = [4294967296, 4294967296], tsize = 0,
                   requires_grad = True, inputs = [], backward_fn = NoOp\<rparr>])"
  by (simp add: from_data_def Tensor_of_data_def compute_size_def make_shared_def resize_def)

text \<open>
  C6 (amended). The element count of a shape is \<open>compute_size\<close>: 0 for the empty shape,
  else the product of the dimensions modulo \<open>2^64\<close>. Constructing a tensor from explicit
  data fails, with an error of the kind SizeMismatch, iff the data length differs from
  that count, and it succeeds iff they are equal. \<open>reshape\<close> of a tensor whose data
  buffer has \<open>tsize\<close> elements fails with SizeMismatch iff the count of the target shape
  differs from \<open>tsize\<close>. A failure returns the heap unchanged (no tensor is made, the
  source keeps its data and gradient); a success appends one tensor with the given data
  and shape.
\<close>

theorem C6_size_mismatch:
  "compute_size s = (if s = [] then 0 else prod_list s mod 2 ^ 64)
   \<and> ((\<exists>e. from_data h d s rg = (Inl e, h) \<and> kind_of e = Some SizeMismatch)
        \<longleftrightarrow> length d \<noteq> compute_size s)
   \<and> ((\<exists>t. from_data h d s rg = (Inr (length h), h @ [t]) \<and> data t = d \<and> shape t = s)
        \<longleftrightarrow> length d = compute_size s)
   \<and> (length (data (h ! this)) = tsize (h ! this) \<longrightarrow>
        ((\<exists>e. reshape h this s = (Inl e, h) \<and> kind_of e = Some SizeMismatch)
          \<longleftrightarrow> compute_size s \<noteq> tsize (h ! this))
        \<and> ((\<exists>t. reshape h this s = (Inr (length h), h @ [t]) \<and> data t = data (h ! this)
                \<and> shape t = s)
          \<longleftrightarrow> compute_size s = tsize (h ! this)))"
proof -
  have 1: "compute_size s = (if s = [] then 0 else prod_list s mod 2 ^ 64)"
    by (rule compute_size_prod_list)
  have 2: "(\<exists>e. from_data h d s rg = (Inl e, h) \<and> kind_of e = Some SizeMismatch)
        \<longleftrightarrow> length d \<noteq> compute_size s"
    by (simp add: from_data_cases kind_of_def)
  have 3: "(\<exists>t. from_data h d s rg = (Inr (length h), h @ [t]) \<and> data t = d \<and> shape t = s)
        \<longleftrightarrow> length d = compute_size s"
    by (simp add: from_data_cases)
  have 4: "(\<exists>e. reshape h this s = (Inl e, h) \<and> kind_of e = Some SizeMismatch)
          \<longleftrightarrow> compute_size s \<noteq> tsize (h ! this)"
    if "length (data (h ! this)) = tsize (h ! this)"
    using that by (simp add: reshape_cases kind_of_def)
  have 5: "(\<exists>t. reshape h this s = (Inr (length h), h @ [t]) \<and> data t = data (h ! this)
                \<and> shape t = s) \<longleftrightarrow> compute_size s = tsize (h ! this)"
    if "length (data (h ! this)) = tsize (h ! this)"
    using that by (simp add: reshape_cases)
  from 1 2 3 4 5 show ?thesis by blast
qed

theorem C6_size_mismatch_witness:
  "(\<exists>e. from_data [] [1, 2] [3] True = (Inl e, []) \<and> kind_of e = Some SizeMismatch)
   \<and> (\<exists>t. reshape [Tensor_of_shape [2, 3] True] 0 [3, 2]
            = (Inr 1, [Tensor_of_shape [2, 3] True] @ [t]) \<and> shape t = [3, 2])
   \<and> (\<exists>e. reshape [Tensor_of_shape [2, 3] True] 0 [4]
            = (Inl e, [Tensor_of_shape [2, 3] True]) \<and> kind_of e = Some SizeMismatch)"
proof -
  have cs: "compute_size [3] = 3" "compute_size [3, 2] = 6" "compute_size [4] = 4"
    "tsize (Tensor_of_shape [2, 3] True) = 6" "length (data (Tensor_of_shape [2, 3] True)) = 6"
    by (simp_all add: compute_size_def Tensor_of_shape_def resize_def)
  show ?thesis
    using C6_size_mismatch[of "[3]" "[]" "[1, 2]" True 0]
      C6_size_mismatch[of "[3, 2]" "[Tensor_of_shape [2, 3] True]" "[]" True 0]
      C6_size_mismatch[of "[4]" "[Tensor_of_shape [2, 3] True]" "[]" True 0]
    by (simp add: cs) blast
qed

section \<open>Claim C7: the invariant of every tensor produced\<close>

text \<open>
  The claim as written has \<open>len(grad) = size\<close> iff \<open>requires_grad\<close>. A tensor of size 0
  without gradient has an empty gradient buffer, whose length is its size.
\<close>

theorem C7_invariants_counterexample:
  "length (grad (Tensor_of_shape [] False)) = tsize (Tensor_of_shape [] False)
   \<and> \<not> requires_grad (Tensor_of_shape [] False)"
  by (simp add: Tensor_of_shape_def compute_size_def resize_def)

text \<open>
  C7 (amended). Every tensor produced by a constructor, a factory or a primitive
  operation satisfies \<open>tensor_inv\<close>: \<open>tsize\<close> is \<open>compute_size\<close> of the shape,
  \<open>len(data) = tsize\<close>, and \<open>len(grad)\<close> is \<open>tsize\<close> when \<open>requires_grad\<close> holds and 0
  otherwise. A constructor or factory sets \<open>requires_grad\<close> as given; the output of each
  of add, multiply, multiply\_scalar, pow, matmul, sum, mean, reshape, flatten, relu,
  sigmoid and tanh requires a gradient iff at least one input does (\<open>op_result_ok\<close>).
\<close>

theorem C7_invariants:
  "tensor_inv (Tensor_of_shape s rg) \<and> requires_grad (Tensor_of_shape s rg) = rg
   \<and> (\<forall>t. Tensor_of_data d s rg = Inr t \<longrightarrow> tensor_inv t \<and> requires_grad t = rg)
   \<and> tensor_inv (snd (zeros h s rg) ! fst (zeros h s rg))
   \<and> tensor_inv (snd (ones h s rg) ! fst (ones h s rg))
   \<and> tensor_inv (snd (randn h s rg draws) ! fst (randn h s rg draws))
   \<and> (\<forall>r h'. add h a b = (Inr r, h') \<longrightarrow> op_result_ok h [a, b] (r, h'))
   \<and> (\<forall>r h'. multiply h a b = (Inr r, h') \<longrightarrow> op_result_ok h [a, b] (r, h'))
   \<and> op_result_ok h [a] (multiply_scalar h a c)
   \<and> op_result_ok h [a] (pow h a c)
   \<and> (\<forall>r h'. matmul h a b = (Inr r, h') \<longrightarrow> op_result_ok h [a, b] (r, h'))
   \<and> op_result_ok h [a] (sum_op h a)
   \<and> (\<forall>r h'. a < length h \<and> mean h a = Some (r, h') \<longrightarrow>
          op_result_ok (snd (sum_op h a)) [fst (sum_op h a)] (r, h')
          \<and> requires_grad (h' ! r) = requires_grad (h ! a))
   \<and> (\<forall>r h'. reshape h a s = (Inr r, h') \<longrightarrow> op_result_ok h [a] (r, h'))
   \<and> (\<forall>r h'. flatten h a = (Inr r, h') \<longrightarrow> op_result_ok h [a] (r, h'))
   \<and> op_result_ok h [a] (relu h a)
   \<and> op_result_ok h [a] (sigmoid h a)
   \<and> op_result_ok h [a] (tanh_op h a)"
proof -
  have d: "\<forall>t. Tensor_of_data d s rg = Inr t \<longrightarrow> tensor_inv t \<and> requires_grad t = rg"
    using tensor_inv_of_data[of d s rg] by (auto simp: Tensor_of_data_def split: if_splits)
  have m: "\<forall>r h'. a < length h \<and> mean h a = Some (r, h') \<longrightarrow>
          op_result_ok (snd (sum_op h a)) [fst (sum_op h a)] (r, h')
          \<and> requires_grad (h' ! r) = requires_grad (h ! a)"
    using mean_ok[of a h] by blast
  show ?thesis
    by (intro conjI allI impI tensor_inv_of_shape factory_requires_grad factory_inv
        add_ok multiply_ok multiply_scalar_ok pow_ok matmul_ok sum_ok reshape_ok flatten_ok
        relu_ok sigmoid_ok tanh_ok d m)
qed

theorem C7_invariants_witness:
  "op_result_ok [Tensor_of_shape [2] True, Tensor_of_shape [2] False] [0, 1]
     (2, snd (add [Tensor_of_shape [2] True, Tensor_of_shape [2] False] 0 1))
   \<and> tensor_inv (Tensor_of_shape [2] False)"
proof -
  let ?h = "[Tensor_of_shape [2] True, Tensor_of_shape [2] False]"
  have "add ?h 0 1 = (Inr 2, snd (add ?h 0 1))"
    by (simp add: add_def shapes_compatible_eq Tensor_of_shape_def Let_def)
  with C7_invariants[of "[2]" False "[]" ?h "\<lambda>_. (1, 1)" 0 1 0] show ?thesis
    by blast
qed

section \<open>Claim C8: a reshape to another shape and back\<close>

text \<open>
  C8. Let \<open>t\<close> be an allocated tensor whose data has \<open>tsize\<close> elements, \<open>tsize\<close> being the
  count of its shape, and \<open>s1\<close> a shape of the same count (\<open>compute_size s1 = tsize\<close>, the
  test that \<open>reshape\<close> makes). Then \<open>reshape\<close> to \<open>s1\<close> succeeds, \<open>reshape\<close> of its result
  to the shape of \<open>t\<close> succeeds, \<open>t\<close> itself is left as it was, and the second result has
  the shape, the data, the size and the \<open>requires_grad\<close> flag of \<open>t\<close>. The closure of a
  \<open>reshape\<close> adds the gradient of the result to the gradient of its input, entry by entry.
  For the gradient of the round trip, \<open>reshape_graph\<close> is the program
  \<^verbatim>\<open>x = from_data(xs, s, rg); r1 = x->reshape(s1); r2 = r1->reshape(x->shape()); y = r2->op(); r = y->sum()\<close>
  and \<open>branch_graph\<close> the same program without the two calls of \<open>reshape\<close>: \<open>backward\<close> from
  the root leaves the same gradient in \<open>x\<close> in both, with one entry per element when \<open>x\<close>
  requires a gradient and none otherwise.
\<close>

theorem C8_reshape_roundtrip:
  "(t < length h \<and> length (data (h ! t)) = tsize (h ! t)
      \<and> tsize (h ! t) = compute_size (shape (h ! t)) \<and> compute_size s1 = tsize (h ! t) \<longrightarrow>
      (\<exists>h1 h2. reshape h t s1 = (Inr (length h), h1)
         \<and> reshape h1 (length h) (shape (h1 ! t)) = (Inr (Suc (length h)), h2)
         \<and> h2 ! t = h ! t
         \<and> shape (h2 ! length h) = s1
         \<and> shape (h2 ! Suc (length h)) = shape (h ! t)
         \<and> data (h2 ! Suc (length h)) = data (h ! t)
         \<and> tsize (h2 ! Suc (length h)) = tsize (h ! t)
         \<and> requires_grad (h2 ! Suc (length h)) = requires_grad (h ! t)))
   \<and> (t < length h \<and> requires_grad (h ! t) \<and> length (grad (h ! t)) = tsize (h ! t) \<and> r \<noteq> t \<longrightarrow>
        run_backward_fn (ReshapeBack t r) h
          = h[t := (h ! t)\<lparr>grad := map (\<lambda>i. grad (h ! t) ! i + grad (h ! r) ! i)
                                     [0..<tsize (h ! t)]\<rparr>])
   \<and> (length xs = compute_size s \<and> compute_size s1 = compute_size s \<longrightarrow>
        (\<exists>hr hd. reshape_graph op xs s s1 rg = Some (4, hr)
           \<and> branch_graph op xs s rg = Some (2, hd)
           \<and> data (hr ! 0) = xs \<and> shape (hr ! 0) = s \<and> data (hd ! 0) = xs
           \<and> inputs (hr ! 1) = [0] \<and> shape (hr ! 1) = s1
           \<and> inputs (hr ! 2) = [1] \<and> shape (hr ! 2) = s \<and> data (hr ! 2) = xs
           \<and> inputs (hr ! 3) = [2] \<and> inputs (hr ! 4) = [3] \<and> tsize (hr ! 4) = 1
           \<and> length (grad (backward hr 4 ! 0)) = (if rg then length xs else 0)
           \<and> grad (backward hr 4 ! 0) = grad (backward hd 2 ! 0)))"
proof (intro conjI impI)
  assume "t < length h \<and> length (data (h ! t)) = tsize (h ! t)
      \<and> tsize (h ! t) = compute_size (shape (h ! t)) \<and> compute_size s1 = tsize (h ! t)"
  then show "\<exists>h1 h2. reshape h t s1 = (Inr (length h), h1)
         \<and> reshape h1 (length h) (shape (h1 ! t)) = (Inr (Suc (length h)), h2)
         \<and> h2 ! t = h ! t
         \<and> shape (h2 ! length h) = s1
         \<and> shape (h2 ! Suc (length h)) = shape (h ! t)
         \<and> data (h2 ! Suc (length h)) = data (h ! t)
         \<and> tsize (h2 ! Suc (length h)) = tsize (h ! t)
         \<and> requires_grad (h2 ! Suc (length h)) = requires_grad (h ! t)"
    using reshape_roundtrip[of t h s1] by blast
next
  assume a: "t < length h \<and> requires_grad (h ! t) \<and> length (grad (h ! t)) = tsize (h ! t) \<and> r \<noteq> t"
  then have "accumulate t (\<lambda>h i. grad (h ! r) ! i) h
      = h[t := (h ! t)\<lparr>grad := map (\<lambda>i. grad (h ! t) ! i + grad (h ! r) ! i)
                                     [0..<tsize (h ! t)]\<rparr>]"
    by (subst accumulate_closed) simp_all
  then show "run_backward_fn (ReshapeBack t r) h
          = h[t := (h ! t)\<lparr>grad := map (\<lambda>i. grad (h ! t) ! i + grad (h ! r) ! i)
                                     [0..<tsize (h ! t)]\<rparr>]"
    by simp
next
  assume a: "length xs = compute_size s \<and> compute_size s1 = compute_size s"
  from reshape_graph_grad[of xs s s1 op rg] a obtain hr where hr:
    "reshape_graph op xs s s1 rg = Some (4, hr)"
    "data (hr ! 0) = xs" "shape (hr ! 0) = s"
    "inputs (hr ! 1) = [0]" "shape (hr ! 1) = s1"
    "inputs (hr ! 2) = [1]" "shape (hr ! 2) = s" "data (hr ! 2) = xs"
    "inputs (hr ! 3) = [2]" "inputs (hr ! 4) = [3]" "tsize (hr ! 4) = 1"
    "grad (backward hr 4 ! 0)
       = (if rg then map (\<lambda>i. unop_coeff op (xs ! i) (unop_value op (xs ! i)))
                     [0..<length xs] else [])"
    by blast
  from branch_graph_grad[of xs s op rg] a obtain hd where hd:
    "branch_graph op xs s rg = Some (2, hd)" "data (hd ! 0) = xs"
    "grad (backward hd 2 ! 0)
       = (if rg then map (\<lambda>i. unop_coeff op (xs ! i) (unop_value op (xs ! i)))
                     [0..<length xs] else [])"
    by blast
  have eq: "grad (backward hr 4 ! 0) = grad (backward hd 2 ! 0)"
    unfolding hr(12) hd(3) ..
  have n: "length (grad (backward hr 4 ! 0)) = (if rg then length xs else 0)"
    unfolding hr(12) by simp
  from hr(1-11) hd(1,2) n eq
  show "\<exists>hr hd. reshape_graph op xs s s1 rg = Some (4, hr)
           \<and> branch_graph op xs s rg = Some (2, hd)
           \<and> data (hr ! 0) = xs \<and> shape (hr ! 0) = s \<and> data (hd ! 0) = xs
           \<and> inputs (hr ! 1) = [0] \<and> shape (hr ! 1) = s1
           \<and> inputs (hr ! 2) = [1] \<and> shape (hr ! 2) = s \<and> data (hr ! 2) = xs
           \<and> inputs (hr ! 3) = [2] \<and> inputs (hr ! 4) = [3] \<and> tsize (hr ! 4) = 1
           \<and> length (grad (backward hr 4 ! 0)) = (if rg then length xs else 0)
           \<and> grad (backward hr 4 ! 0) = grad (backward hd 2 ! 0)"
    by blast
qed

theorem C8_reshape_roundtrip_witness:
  "(\<exists>h1 h2. reshape
        [\<lparr>data = [1, 2, 3, 4, 5, 6], grad = [0, 0, 0, 0, 0, 1], shape = [2, 3], tsize = 6,
           requires_grad = True, inputs = [], backward_fn = NoOp\<rparr>] 0 [3, 2] = (Inr 1, h1)
      \<and> reshape h1 1 [2, 3] = (Inr 2, h2)
      \<and> shape (h2 ! 1) = [3, 2] \<and> shape (h2 ! 2) = [2, 3] \<and> data (h2 ! 2) = [1, 2, 3, 4, 5, 6])
   \<and> grad (run_backward_fn (ReshapeBack 0 1)
        [\<lparr>data = [3, 4], grad = [1, 2], shape = [2], tsize = 2, requires_grad = True,
           inputs = [], backward_fn = NoOp\<rparr>,
         \<lparr>data = [3, 4], grad = [10, 20], shape = [1, 2], tsize = 2, requires_grad = True,
           inputs = [0], backward_fn = ReshapeBack 0 1\<rparr>] ! 0) = [11, 22]
   \<and> (\<exists>hr. reshape_graph (MulScalar 3) [1, - 2] [2] [1, 2] True = Some (4, hr)
        \<and> grad (backward hr 4 ! 0) = [3, 3])"
proof -
  define T :: Tensor where "T =
         \<lparr>data = [1, 2, 3, 4, 5, 6], grad = [0, 0, 0, 0, 0, 1], shape = [2, 3], tsize = 6,
           requires_grad = True, inputs = [], backward_fn = NoOp\<rparr>"
  define H :: heap where "H =
        [\<lparr>data = [3, 4], grad = [1, 2], shape = [2], tsize = 2, requires_grad = True,
           inputs = [], backward_fn = NoOp\<rparr>,
         \<lparr>data = [3, 4], grad = [10, 20], shape = [1, 2], tsize = 2, requires_grad = True,
           inputs = [0], backward_fn = ReshapeBack 0 1\<rparr>]"
  have p1: "0 < length [T] \<and> length (data ([T] ! 0)) = tsize ([T] ! 0)
      \<and> tsize ([T] ! 0) = compute_size (shape ([T] ! 0)) \<and> compute_size [3, 2] = tsize ([T] ! 0)"
    by (simp add: T_def compute_size_def)
  from C8_reshape_roundtrip[of 0 "[T]" "[3, 2]" 1 "[]" "[]" Relu False] p1
  obtain h1 h2 where r: "reshape [T] 0 [3, 2] = (Inr (length [T]), h1)"
    "reshape h1 (length [T]) (shape (h1 ! 0)) = (Inr (Suc (length [T])), h2)"
    "h2 ! 0 = [T] ! 0"
    "shape (h2 ! length [T]) = [3, 2]"
    "shape (h2 ! Suc (length [T])) = shape ([T] ! 0)"
    "data (h2 ! Suc (length [T])) = data ([T] ! 0)"
    by blast
  have h1: "shape (h1 ! 0) = [2, 3]"
    using r(1) by (simp add: reshape_cases T_def compute_size_def split: if_splits) auto
  have a: "\<exists>h1 h2. reshape [T] 0 [3, 2] = (Inr 1, h1)
      \<and> reshape h1 1 [2, 3] = (Inr 2, h2)
      \<and> shape (h2 ! 1) = [3, 2] \<and> shape (h2 ! 2) = [2, 3] \<and> data (h2 ! 2) = [1, 2, 3, 4, 5, 6]"
    using r h1 by (intro exI[of _ h1] exI[of _ h2]) (simp add: T_def eval_nat_numeral)
  have p2: "0 < length H \<and> requires_grad (H ! 0) \<and> length (grad (H ! 0)) = tsize (H ! 0) \<and> 1 \<noteq> (0::nat)"
    by (simp add: H_def)
  from C8_reshape_roundtrip[of 0 H "[]" 1 "[]" "[]" Relu False] p2
  have "run_backward_fn (ReshapeBack 0 1) H
          = H[0 := (H ! 0)\<lparr>grad := map (\<lambda>i. grad (H ! 0) ! i + grad (H ! 1) ! i)
                                     [0..<tsize (H ! 0)]\<rparr>]"
    by blast
  then have b: "grad (run_backward_fn (ReshapeBack 0 1) H ! 0) = [11, 22]"
    by (simp add: H_def upt_rec eval_nat_numeral)
  have p3: "length [1, - 2 :: real] = compute_size [2] \<and> compute_size [1, 2] = compute_size [2]"
    by (simp add: compute_size_def)
  from C8_reshape_roundtrip[of 0 "[]" "[1, 2]" 1 "[1, - 2]" "[2]" "MulScalar 3" True] p3
  obtain hr hd where g: "reshape_graph (MulScalar 3) [1, - 2] [2] [1, 2] True = Some (4, hr)"
    "branch_graph (MulScalar 3) [1, - 2] [2] True = Some (2, hd)"
    "grad (backward hr 4 ! 0) = grad (backward hd 2 ! 0)"
    by blast
  from branch_graph_grad[of "[1, - 2]" "[2]" "MulScalar 3" True] p3 g(2)
  have "grad (backward hd 2 ! 0) = [3, 3]"
    by (auto simp: upt_rec eval_nat_numeral)
  with g(1,3) have c: "\<exists>hr. reshape_graph (MulScalar 3) [1, - 2] [2] [1, 2] True = Some (4, hr)
        \<and> grad (backward hr 4 ! 0) = [3, 3]"
    by simp
  from a b c show ?thesis unfolding T_def H_def by blast
qed

section \<open>Claim C9: zero\_grad over a graph\<close>

text \<open>
  C9. On a heap built by the operations (\<open>wf_heap\<close>), \<open>zero_grad\<close> from an allocated
  root \<open>t\<close> returns (any fuel above \<open>t\<close> is enough for the recursion); afterwards the
  gradient buffer of the root and of every tensor reachable through \<open>inputs\<close> is all
  zeros, every data buffer and every field other than \<open>grad\<close> is as before, tensors that
  are not reachable are untouched, and a second call returns the same heap.
\<close>

theorem C9_zero_grad:
  assumes "wf_heap h" and "t < length h" and "t < fuel"
  shows "\<exists>h'. zero_grad fuel h t = Some h' \<and> length h' = length h \<and> t \<in> reach h t
     \<and> (\<forall>a\<in>reach h t. grad (h' ! a) = replicate (length (grad (h ! a))) 0)
     \<and> (\<forall>a<length h. data (h' ! a) = data (h ! a)
            \<and> (h' ! a)\<lparr>grad := []\<rparr> = (h ! a)\<lparr>grad := []\<rparr>)
     \<and> (\<forall>a<length h. a \<notin> reach h t \<longrightarrow> h' ! a = h ! a)
     \<and> zero_grad fuel h' t = Some h'"
proof -
  let ?h' = "zero_grads (reach h t) h"
  have 1: "zero_grad fuel h t = Some ?h'"
    by (rule zero_grad_closed[OF assms])
  have below: "a < length h" if "a \<in> reach h t" for a
    using reach_below[OF assms(1) that] assms(2) by simp
  have 2: "\<forall>a\<in>reach h t. grad (?h' ! a) = replicate (length (grad (h ! a))) 0"
    using below by (simp add: nth_zero_grads map_replicate_const)
  have 3: "\<forall>a<length h. data (?h' ! a) = data (h ! a)
            \<and> (?h' ! a)\<lparr>grad := []\<rparr> = (h ! a)\<lparr>grad := []\<rparr>"
    by (simp add: nth_zero_grads)
  have 4: "\<forall>a<length h. a \<notin> reach h t \<longrightarrow> ?h' ! a = h ! a"
    by (simp add: nth_zero_grads)
  have "zero_grad fuel ?h' t = Some (zero_grads (reach ?h' t) ?h')"
    using assms by (intro zero_grad_closed wf_heap_zero_grads) (simp_all add: length_zero_grads)
  then have 5: "zero_grad fuel ?h' t = Some ?h'"
    by (simp add: reach_zero_grads zero_grads_twice)
  from 1 2 3 4 5 show ?thesis
    using reach_self[of t h] by (intro exI[of _ ?h']) (simp add: length_zero_grads)
qed

theorem C9_zero_grad_witness:
  "\<exists>h'. zero_grad 3
          [\<lparr>data = [3, 4], grad = [1, 2], shape = [2], tsize = 2, requires_grad = True,
             inputs = [], backward_fn = NoOp\<rparr>,
           \<lparr>data = [6, 8], grad = [5, 6], shape = [2], tsize = 2, requires_grad = True,
             inputs = [0], backward_fn = MultiplyScalarBack 0 2 1\<rparr>,
           \<lparr>data = [9, 12], grad = [7, 8], shape = [2], tsize = 2, requires_grad = True,
             inputs = [1, 0], backward_fn = AddBack 1 0 2\<rparr>] 2 = Some h'
      \<and> grad (h' ! 0) = [0, 0] \<and> grad (h' ! 1) = [0, 0] \<and> grad (h' ! 2) = [0, 0]
      \<and> data (h' ! 0) = [3, 4] \<and> zero_grad 3 h' 2 = Some h'"
proof -
  define H :: heap where "H =
          [\<lparr>data = [3, 4], grad = [1, 2], shape = [2], tsize = 2, requires_grad = True,
             inputs = [], backward_fn = NoOp\<rparr>,
           \<lparr>data = [6, 8], grad = [5, 6], shape = [2], tsize = 2, requires_grad = True,
             inputs = [0], backward_fn = MultiplyScalarBack 0 2 1\<rparr>,
           \<lparr>data = [9, 12], grad = [7, 8], shape = [2], tsize = 2, requires_grad = True,
             inputs = [1, 0], backward_fn = AddBack 1 0 2\<rparr>]"
  have wf: "wf_heap H"
    by (auto simp: wf_heap_def H_def less_Suc_eq eval_nat_numeral)
  have len: "length H = 3" by (simp add: H_def)
  have "0 \<in> set (inputs_of H 2)" "1 \<in> set (inputs_of H 2)"
    by (simp_all add: inputs_of_def H_def)
  then have r: "0 \<in> reach H 2" "1 \<in> reach H 2" "2 \<in> reach H 2"
    using reach_step[of 0 H 2] reach_step[of 1 H 2] reach_self by auto
  from C9_zero_grad[OF wf, of 2 3] obtain h' where h':
    "zero_grad 3 H 2 = Some h'"
    "\<forall>a\<in>reach H 2. grad (h' ! a) = replicate (length (grad (H ! a))) 0"
    "\<forall>a<length H. data (h' ! a) = data (H ! a) \<and> (h' ! a)\<lparr>grad := []\<rparr> = (H ! a)\<lparr>grad := []\<rparr>"
    "zero_grad 3 h' 2 = Some h'"
    by (auto simp: len)
  from h'(2) r have "grad (h' ! 0) = [0, 0]" "grad (h' ! 1) = [0, 0]" "grad (h' ! 2) = [0, 0]"
    by (auto simp: H_def)
  moreover from h'(3) have "data (h' ! 0) = [3, 4]"
    by (simp add: H_def len)
  ultimately have "\<exists>h'. zero_grad 3 H 2 = Some h'
      \<and> grad (h' ! 0) = [0, 0] \<and> grad (h' ! 1) = [0, 0] \<and> grad (h' ! 2) = [0, 0]
      \<and> data (h' ! 0) = [3, 4] \<and> zero_grad 3 h' 2 = Some h'"
    using h'(1,4) by blast
  then show ?thesis unfolding H_def .
qed

section \<open>Claim C10: mean divides by the size without a guard\<close>

text \<open>
  C10. The size of the empty shape is 0, and \<open>mean\<close> computes \<^verbatim>\<open>1.0 / size_\<close> with no check:
  on an allocated tensor the division is by zero exactly when \<open>tsize\<close> is 0 (so for a
  tensor made from the empty shape), and under \<open>tsize > 0\<close> that branch is not reached:
  \<open>mean\<close> returns the tensor holding the sum of the data times \<open>1 / tsize\<close>.
\<close>

theorem C10_mean:
  "compute_size [] = 0
   \<and> (a < length h \<longrightarrow> (mean h a = None \<longleftrightarrow> tsize (h ! a) = 0))
   \<and> (a < length h \<and> tsize (h ! a) > 0 \<longrightarrow>
        (\<exists>h1 t. mean h a = Some (Suc (length h), h1 @ [t]) \<and> h1 = snd (sum_op h a)
           \<and> data t = [sum_list (data (h ! a)) * (1 / real (tsize (h ! a)))]))
   \<and> mean (snd (zeros h [] rg)) (fst (zeros h [] rg)) = None"
proof -
  have "mean (snd (zeros h [] rg)) (fst (zeros h [] rg)) = None"
    by (subst mean_None_iff) (simp_all add: zeros_def make_shared_def Tensor_of_shape_def compute_size_def)
  then show ?thesis
    using mean_None_iff[of a h] mean_Some[of a h]
    by (simp add: compute_size_def)
qed

theorem C10_mean_witness:
  "mean [Tensor_of_shape [] True] 0 = None
   \<and> (\<exists>h1 t. mean [Tensor_of_shape [2] True\<lparr>data := [1, 3]\<rparr>] 0 = Some (2, h1 @ [t]) \<and> data t = [2])"
proof -
  have 1: "tsize (Tensor_of_shape [] True) = 0" "tsize (Tensor_of_shape [2] True\<lparr>data := [1, 3]\<rparr>) = 2"
    by (simp_all add: Tensor_of_shape_def compute_size_def)
  show ?thesis
    using C10_mean[of 0 "[Tensor_of_shape [] True]" True] C10_mean[of 0 "[Tensor_of_shape [2] True\<lparr>data := [1, 3]\<rparr>]" True]
    by (auto simp: 1)
qed

end
